theory Spec2Isabelle
  imports Complex_Main "HOL-Library.Sublist"
begin

section \<open>Python and numpy values\<close>

text \<open>
  The class \<open>JointGaussianDistribution\<close> of
  \<open>pgmpy/models/continuous/JointGaussianDistribution.py\<close> keeps a list of variables,
  a mean vector and a covariance matrix (both \<open>np.matrix\<close> objects) and a lazily
  computed precision matrix. Its methods rebind attributes of instances and share
  objects by reference, so the embedding has an explicit store of Python objects.

  Exceptions are values. \<open>ValueError\<close>, \<open>TypeError\<close> and \<open>IndexError\<close> are Python's;
  \<open>LinAlgError\<close> is \<open>numpy.linalg.LinAlgError\<close>. \<open>DanglingRef\<close> is not a Python
  exception: the store returns it for an address that holds no object, which a Python
  reference never is.
\<close>

datatype py_error = ValueError | TypeError | IndexError | LinAlgError | DanglingRef

text \<open>
  An \<open>ndarray\<close>: its shape and its elements in row-major order. The elements are opaque
  to every method but the inversion, so their type is a parameter.
\<close>

record 'a ndarray =
  shape :: "nat list"
  data :: "'a list"

text \<open>
  An \<open>np.matrix\<close> is always two-dimensional: its two dimensions and its elements in
  row-major order, as numpy stores them.
\<close>

record 'a matrix =
  nrows :: nat
  ncols :: nat
  elems :: "'a list"

definition mat_shape :: "'a matrix \<Rightarrow> nat \<times> nat" where
  "mat_shape m = (nrows m, ncols m)"

text \<open>\<open>m[i, j]\<close>\<close>

definition entry :: "'a matrix \<Rightarrow> nat \<Rightarrow> nat \<Rightarrow> 'a" where
  "entry m i j = elems m ! (i * ncols m + j)"

text \<open>
  An array-like argument of the constructor. numpy tells three kinds apart: a Python
  scalar or nested sequence (given here by the array that \<open>np.array\<close> makes of it), an
  \<open>ndarray\<close>, and an \<open>np.matrix\<close> (what \<open>copy\<close> passes).
\<close>

datatype 'a array_like = PyValue "'a ndarray" | NdArray "'a ndarray" | NpMatrix "'a matrix"

definition np_shape :: "'a array_like \<Rightarrow> nat list" where
  "np_shape x =
     (case x of PyValue a \<Rightarrow> shape a | NdArray a \<Rightarrow> shape a | NpMatrix m \<Rightarrow> [nrows m, ncols m])"

definition np_data :: "'a array_like \<Rightarrow> 'a list" where
  "np_data x = (case x of PyValue a \<Rightarrow> data a | NdArray a \<Rightarrow> data a | NpMatrix m \<Rightarrow> elems m)"

definition np_size :: "'a array_like \<Rightarrow> nat" where
  "np_size x = length (np_data x)"

text \<open>
  \<open>len(x)\<close>: the first dimension; a scalar and a zero-dimensional array have no length
  (\<open>TypeError\<close>).
\<close>

definition py_len :: "'a array_like \<Rightarrow> py_error + nat" where
  "py_len x = (case np_shape x of [] \<Rightarrow> Inl TypeError | n # _ \<Rightarrow> Inr n)"

text \<open>
  \<open>matrix.__array_finalize__\<close>, which runs when an array is viewed as an \<open>np.matrix\<close>: two
  dimensions are kept; of more than two, the axes of length above 1 are kept, and more
  than two of them raise \<open>ValueError("shape too large to be a matrix.")\<close>; what is left
  with no axis becomes 1 x 1 and with one axis a single row. Assigning a shape that does
  not hold the elements raises \<open>ValueError\<close>.
\<close>

definition set_shape :: "'a ndarray \<Rightarrow> nat \<Rightarrow> nat \<Rightarrow> py_error + 'a matrix" where
  "set_shape a r c =
     (if r * c = length (data a) then Inr \<lparr>nrows = r, ncols = c, elems = data a\<rparr>
      else Inl ValueError)"

definition array_finalize :: "'a ndarray \<Rightarrow> py_error + 'a matrix" where
  "array_finalize a =
     (case shape a of
        [r, c] \<Rightarrow> Inr \<lparr>nrows = r, ncols = c, elems = data a\<rparr>
      | s \<Rightarrow>
     (case (if 2 < length s then filter (\<lambda>x. 1 < x) s else s) of
        [] \<Rightarrow> set_shape a 1 1
      | [c] \<Rightarrow> set_shape a 1 c
      | [r, c] \<Rightarrow> set_shape a r c
      | _ \<Rightarrow> Inl ValueError))"

text \<open>
  \<open>np.reshape(x, newshape)\<close>: the same elements, when their number fits. The result is
  an \<open>ndarray\<close>, and for an \<open>np.matrix\<close> a view that is an \<open>np.matrix\<close> again.
\<close>

definition np_reshape :: "'a array_like \<Rightarrow> nat list \<Rightarrow> py_error + 'a array_like" where
  "np_reshape x newshape =
     (if prod_list newshape \<noteq> np_size x then Inl ValueError
      else (case x of
              NpMatrix m \<Rightarrow>
                (case array_finalize \<lparr>shape = newshape, data = elems m\<rparr> of
                   Inl e \<Rightarrow> Inl e
                 | Inr m' \<Rightarrow> Inr (NpMatrix m'))
            | _ \<Rightarrow> Inr (NdArray \<lparr>shape = newshape, data = np_data x\<rparr>)))"

text \<open>
  \<open>np.matrix(x)\<close>, always a new object. An \<open>np.matrix\<close> is copied. An \<open>ndarray\<close> is
  viewed as a matrix (\<open>data.view(subtype)\<close>), so axes of length 1 are dropped. Of a
  scalar or a sequence numpy first makes an array: a scalar becomes 1 x 1, one dimension
  a single row, two dimensions are taken as they are, and more raise
  \<open>ValueError("matrix must be 2-dimensional")\<close>.
\<close>

definition np_matrix :: "'a array_like \<Rightarrow> py_error + 'a matrix" where
  "np_matrix x =
     (case x of
        NpMatrix m \<Rightarrow> Inr m
      | NdArray a \<Rightarrow> array_finalize a
      | PyValue a \<Rightarrow>
     (case shape a of
        [] \<Rightarrow> Inr \<lparr>nrows = 1, ncols = 1, elems = data a\<rparr>
      | [c] \<Rightarrow> Inr \<lparr>nrows = 1, ncols = c, elems = data a\<rparr>
      | [r, c] \<Rightarrow> Inr \<lparr>nrows = r, ncols = c, elems = data a\<rparr>
      | _ \<Rightarrow> Inl ValueError))"

text \<open>\<open>xs.index(v)\<close>: the first position of \<open>v\<close>, or \<open>ValueError\<close>.\<close>

fun list_index :: "'v list \<Rightarrow> 'v \<Rightarrow> py_error + nat" where
  "list_index [] v = Inl ValueError"
| "list_index (x # xs) v =
     (if x = v then Inr 0
      else (case list_index xs v of Inl e \<Rightarrow> Inl e | Inr i \<Rightarrow> Inr (Suc i)))"

text \<open>
  \<open>[distribution.variables.index(var) for var in variables]\<close>: the comprehension stops
  at the first identifier that is not in the list.
\<close>

fun var_indexes :: "'v list \<Rightarrow> 'v list \<Rightarrow> py_error + nat list" where
  "var_indexes vs [] = Inr []"
| "var_indexes vs (x # xs) =
     (case list_index vs x of
        Inl e \<Rightarrow> Inl e
      | Inr i \<Rightarrow> (case var_indexes vs xs of Inl e \<Rightarrow> Inl e | Inr js \<Rightarrow> Inr (i # js)))"

text \<open>\<open>sorted(set(range(n)) - set(var_indexes))\<close>\<close>

definition index_to_keep :: "nat \<Rightarrow> nat list \<Rightarrow> nat list" where
  "index_to_keep n idxs = sorted_list_of_set (set [0..<n] - set idxs)"

text \<open>\<open>[xs[i] for i in idxs]\<close> on a Python list (the indices are never negative).\<close>

definition py_select :: "'v list \<Rightarrow> nat list \<Rightarrow> py_error + 'v list" where
  "py_select xs idxs =
     (if list_all (\<lambda>i. i < length xs) idxs then Inr (map (\<lambda>i. xs ! i) idxs)
      else Inl IndexError)"

text \<open>\<open>m[idxs]\<close> on a matrix with a list of row indices: a new matrix of those rows.\<close>

definition take_rows :: "'a matrix \<Rightarrow> nat list \<Rightarrow> py_error + 'a matrix" where
  "take_rows m idxs =
     (if list_all (\<lambda>i. i < nrows m) idxs
      then Inr \<lparr>nrows = length idxs, ncols = ncols m,
                elems = concat (map (\<lambda>i. map (\<lambda>j. entry m i j) [0..<ncols m]) idxs)\<rparr>
      else Inl IndexError)"

text \<open>
  \<open>m[np.ix_(ridx, cidx)]\<close>: the new matrix whose entry \<open>(a, b)\<close> is
  \<open>m[ridx[a], cidx[b]]\<close>.
\<close>

definition ix_select :: "'a matrix \<Rightarrow> nat list \<Rightarrow> nat list \<Rightarrow> py_error + 'a matrix" where
  "ix_select m ridx cidx =
     (if list_all (\<lambda>i. i < nrows m) ridx \<and> list_all (\<lambda>j. j < ncols m) cidx
      then Inr \<lparr>nrows = length ridx, ncols = length cidx,
                elems = concat (map (\<lambda>i. map (\<lambda>j. entry m i j) cidx) ridx)\<rparr>
      else Inl IndexError)"

section \<open>The store\<close>

type_synonym addr = nat

text \<open>
  An instance holds references. \<open>cached_precision\<close> is the attribute
  \<open>_precision_matrix\<close>, \<open>None\<close> while unset.
\<close>

record jgd =
  variables :: addr
  mean_vector :: addr
  covariance_matrix :: addr
  cached_precision :: "addr option"

record ('v, 'a) heap =
  pylists :: "'v list list"
  arrays :: "'a matrix list"
  objects :: "jgd list"

definition lookup :: "'x list \<Rightarrow> addr \<Rightarrow> py_error + 'x" where
  "lookup cells a = (if a < length cells then Inr (cells ! a) else Inl DanglingRef)"

section \<open>The methods\<close>

text \<open>
  \<open>__init__(self, variables, mean_vector, covariance_matrix)\<close>. The list is stored by
  reference; \<open>np.matrix\<close> makes new objects of the two numeric arguments. Python
  allocates the instance before \<open>__init__\<close> runs and drops it when \<open>__init__\<close> raises;
  the store gets the instance once \<open>__init__\<close> has returned.
\<close>

definition init ::
  "('v, 'a) heap \<Rightarrow> addr \<Rightarrow> 'a array_like \<Rightarrow> 'a array_like \<Rightarrow>
     (py_error + addr) \<times> ('v, 'a) heap" where
  "init h variables_ref mean cov =
     (case lookup (pylists h) variables_ref of
        Inl e \<Rightarrow> (Inl e, h)
      | Inr vs \<Rightarrow>
     (case py_len mean of
        Inl e \<Rightarrow> (Inl e, h)
      | Inr m \<Rightarrow>
     if m \<noteq> length vs then (Inl ValueError, h) else
     (case np_reshape mean [length vs, 1] of
        Inl e \<Rightarrow> (Inl e, h)
      | Inr reshaped \<Rightarrow>
     (case np_matrix reshaped of
        Inl e \<Rightarrow> (Inl e, h)
      | Inr mv \<Rightarrow>
     (case np_matrix cov of
        Inl e \<Rightarrow> (Inl e, h\<lparr>arrays := arrays h @ [mv]\<rparr>)
      | Inr cm \<Rightarrow>
     if mat_shape cm \<noteq> (length vs, length vs)
     then (Inl ValueError, h\<lparr>arrays := arrays h @ [mv, cm]\<rparr>)
     else (Inr (length (objects h)),
           h\<lparr>arrays := arrays h @ [mv, cm],
             objects := objects h @
               [\<lparr>variables = variables_ref,
                 mean_vector = length (arrays h),
                 covariance_matrix = Suc (length (arrays h)),
                 cached_precision = None\<rparr>]\<rparr>))))))"

text \<open>
  The property \<open>precision_matrix\<close>. \<open>np.linalg.inv\<close> belongs to numpy, not to this
  repository: it is the parameter \<open>linalg_inv\<close>, which returns a new matrix or \<open>None\<close>
  where numpy raises \<open>LinAlgError\<close>. The property returns the cached object itself.
\<close>

definition precision_matrix ::
  "('a matrix \<Rightarrow> 'a matrix option) \<Rightarrow> ('v, 'a) heap \<Rightarrow> addr \<Rightarrow>
     (py_error + addr) \<times> ('v, 'a) heap" where
  "precision_matrix linalg_inv h self =
     (case lookup (objects h) self of
        Inl e \<Rightarrow> (Inl e, h)
      | Inr d \<Rightarrow>
     (case cached_precision d of
        Some p \<Rightarrow> (Inr p, h)
      | None \<Rightarrow>
     (case lookup (arrays h) (covariance_matrix d) of
        Inl e \<Rightarrow> (Inl e, h)
      | Inr c \<Rightarrow>
     (case linalg_inv c of
        None \<Rightarrow> (Inl LinAlgError, h)
      | Some prec \<Rightarrow>
          (Inr (length (arrays h)),
           h\<lparr>arrays := arrays h @ [prec],
             objects := (objects h)[self := d\<lparr>cached_precision := Some (length (arrays h))\<rparr>]\<rparr>)))))"

text \<open>\<open>copy(self)\<close>: a new instance through \<open>__init__\<close>, then the cache by reference.\<close>

definition copy :: "('v, 'a) heap \<Rightarrow> addr \<Rightarrow> (py_error + addr) \<times> ('v, 'a) heap" where
  "copy h self =
     (case lookup (objects h) self of
        Inl e \<Rightarrow> (Inl e, h)
      | Inr d \<Rightarrow>
     (case lookup (arrays h) (mean_vector d) of
        Inl e \<Rightarrow> (Inl e, h)
      | Inr mv \<Rightarrow>
     (case lookup (arrays h) (covariance_matrix d) of
        Inl e \<Rightarrow> (Inl e, h)
      | Inr cm \<Rightarrow>
     (case init h (variables d) (NpMatrix mv) (NpMatrix cm) of
        (Inl e, h1) \<Rightarrow> (Inl e, h1)
      | (Inr c, h1) \<Rightarrow>
          (Inr c,
           h1\<lparr>objects := (objects h1)[c := (objects h1 ! c)\<lparr>cached_precision := cached_precision d\<rparr>]\<rparr>)))))"

text \<open>
  The argument of \<open>marginalize\<close> is a string or a sequence of identifiers
  (\<open>isinstance(variables, six.string_types)\<close> tells them apart).
\<close>

datatype 'v py_arg = PyStr string | PySeq "'v list"

text \<open>
  Lines 133 to 136 of \<open>marginalize\<close>, on the instance \<open>distribution\<close>: the attributes
  are rebound one after the other, each to a new object, so an exception in between
  leaves the earlier assignments in place.
\<close>

definition rebind ::
  "('v, 'a) heap \<Rightarrow> addr \<Rightarrow> nat list \<Rightarrow> (py_error + unit) \<times> ('v, 'a) heap" where
  "rebind h distribution keep =
     (case lookup (objects h) distribution of
        Inl e \<Rightarrow> (Inl e, h)
      | Inr d \<Rightarrow>
     (case lookup (pylists h) (variables d) of
        Inl e \<Rightarrow> (Inl e, h)
      | Inr dvs \<Rightarrow>
     (case py_select dvs keep of
        Inl e \<Rightarrow> (Inl e, h)
      | Inr new_vars \<Rightarrow>
     let d1 = d\<lparr>variables := length (pylists h)\<rparr>;
         h1 = h\<lparr>pylists := pylists h @ [new_vars], objects := (objects h)[distribution := d1]\<rparr>
     in
     (case lookup (arrays h1) (mean_vector d1) of
        Inl e \<Rightarrow> (Inl e, h1)
      | Inr mv \<Rightarrow>
     (case take_rows mv keep of
        Inl e \<Rightarrow> (Inl e, h1)
      | Inr new_mv \<Rightarrow>
     let d2 = d1\<lparr>mean_vector := length (arrays h1)\<rparr>;
         h2 = h1\<lparr>arrays := arrays h1 @ [new_mv], objects := (objects h1)[distribution := d2]\<rparr>
     in
     (case lookup (arrays h2) (covariance_matrix d2) of
        Inl e \<Rightarrow> (Inl e, h2)
      | Inr cm \<Rightarrow>
     (case ix_select cm keep keep of
        Inl e \<Rightarrow> (Inl e, h2)
      | Inr new_cm \<Rightarrow>
     let d3 = d2\<lparr>covariance_matrix := length (arrays h2), cached_precision := None\<rparr>
     in (Inr (),
         h2\<lparr>arrays := arrays h2 @ [new_cm],
            objects := (objects h2)[distribution := d3]\<rparr>))))))))"

text \<open>
  Lines 130 and 131 of \<open>marginalize\<close>, then the assignments: the positions are looked
  up in \<open>distribution.variables\<close>, the range is that of \<open>self.variables\<close>.
\<close>

definition marginalize_body ::
  "('v, 'a) heap \<Rightarrow> addr \<Rightarrow> addr \<Rightarrow> 'v list \<Rightarrow> (py_error + unit) \<times> ('v, 'a) heap" where
  "marginalize_body h self distribution vars =
     (case lookup (objects h) distribution of
        Inl e \<Rightarrow> (Inl e, h)
      | Inr d \<Rightarrow>
     (case lookup (pylists h) (variables d) of
        Inl e \<Rightarrow> (Inl e, h)
      | Inr dvs \<Rightarrow>
     (case var_indexes dvs vars of
        Inl e \<Rightarrow> (Inl e, h)
      | Inr idxs \<Rightarrow>
     (case lookup (objects h) self of
        Inl e \<Rightarrow> (Inl e, h)
      | Inr s \<Rightarrow>
     (case lookup (pylists h) (variables s) of
        Inl e \<Rightarrow> (Inl e, h)
      | Inr svs \<Rightarrow> rebind h distribution (index_to_keep (length svs) idxs))))))"

text \<open>
  \<open>marginalize(self, variables, inplace=True)\<close>: \<open>None\<close> when \<open>inplace\<close>, the new
  instance otherwise.
\<close>

definition marginalize ::
  "('v, 'a) heap \<Rightarrow> addr \<Rightarrow> 'v py_arg \<Rightarrow> bool \<Rightarrow> (py_error + addr option) \<times> ('v, 'a) heap" where
  "marginalize h self variables_arg inplace =
     (case variables_arg of
        PyStr s \<Rightarrow> (Inl TypeError, h)
      | PySeq vars \<Rightarrow>
     (case (if inplace then (Inr self, h) else copy h self) of
        (Inl e, h1) \<Rightarrow> (Inl e, h1)
      | (Inr distribution, h1) \<Rightarrow>
     (case marginalize_body h1 self distribution vars of
        (Inl e, h2) \<Rightarrow> (Inl e, h2)
      | (Inr u, h2) \<Rightarrow> (Inr (if inplace then None else Some distribution), h2))))"

section \<open>Reading a distribution out of the store\<close>

text \<open>
  The value of an instance: what its attributes hold, read through the references.
  \<open>None\<close> when a reference holds no object.
\<close>

record ('v, 'a) dist =
  vars :: "'v list"
  mean :: "'a matrix"
  cov :: "'a matrix"
  prec :: "'a matrix option"

definition view :: "('v, 'a) heap \<Rightarrow> addr \<Rightarrow> ('v, 'a) dist option" where
  "view h a =
     (case lookup (objects h) a of
        Inl e \<Rightarrow> None
      | Inr d \<Rightarrow>
     (case lookup (pylists h) (variables d) of
        Inl e \<Rightarrow> None
      | Inr vs \<Rightarrow>
     (case lookup (arrays h) (mean_vector d) of
        Inl e \<Rightarrow> None
      | Inr mv \<Rightarrow>
     (case lookup (arrays h) (covariance_matrix d) of
        Inl e \<Rightarrow> None
      | Inr cm \<Rightarrow>
     (case cached_precision d of
        None \<Rightarrow> Some \<lparr>vars = vs, mean = mv, cov = cm, prec = None\<rparr>
      | Some p \<Rightarrow>
     (case lookup (arrays h) p of
        Inl e \<Rightarrow> None
      | Inr pm \<Rightarrow> Some \<lparr>vars = vs, mean = mv, cov = cm, prec = Some pm\<rparr>))))))"

text \<open>
  The invariant of the data model: the mean vector is an n x 1 column and the covariance
  matrix is n x n, for the n variables.
\<close>

definition consistent :: "('v, 'a) dist \<Rightarrow> bool" where
  "consistent st =
     (mat_shape (mean st) = (length (vars st), 1) \<and>
      length (elems (mean st)) = length (vars st) \<and>
      mat_shape (cov st) = (length (vars st), length (vars st)) \<and>
      length (elems (cov st)) = length (vars st) * length (vars st))"

text \<open>
  The marginal in the words of the specification: the positions of the variables that
  are not removed, in ascending order; the variables, the elements of the mean vector
  and the rows and columns of the covariance matrix at these positions; no cached
  precision.
\<close>

definition kept :: "'v list \<Rightarrow> 'v list \<Rightarrow> nat list" where
  "kept vs removed = filter (\<lambda>i. vs ! i \<notin> set removed) [0..<length vs]"

definition marginal :: "('v, 'a) dist \<Rightarrow> 'v list \<Rightarrow> ('v, 'a) dist" where
  "marginal st removed =
     \<lparr>vars = filter (\<lambda>v. v \<notin> set removed) (vars st),
      mean = \<lparr>nrows = length (kept (vars st) removed), ncols = 1,
               elems = map (\<lambda>i. elems (mean st) ! i) (kept (vars st) removed)\<rparr>,
      cov = \<lparr>nrows = length (kept (vars st) removed),
              ncols = length (kept (vars st) removed),
              elems = concat (map (\<lambda>i. map (\<lambda>j. entry (cov st) i j) (kept (vars st) removed))
                                  (kept (vars st) removed))\<rparr>,
      prec = None\<rparr>"

section \<open>Runs of the public operations\<close>

text \<open>
  No method writes into a list or an array: each makes new objects and rebinds
  attributes. So a store only grows: old addresses keep their contents.
\<close>

definition grows :: "('v, 'a) heap \<Rightarrow> ('v, 'a) heap \<Rightarrow> bool" where
  "grows h h' =
     (prefix (pylists h) (pylists h') \<and> prefix (arrays h) (arrays h') \<and>
      length (objects h) \<le> length (objects h'))"

text \<open>
  One call of a public operation, with any arguments and any outcome (an exception leaves
  the store as it was when it was raised).
\<close>

inductive step ::
  "('a matrix \<Rightarrow> 'a matrix option) \<Rightarrow> ('v, 'a) heap \<Rightarrow> ('v, 'a) heap \<Rightarrow> bool"
  for linalg_inv :: "'a matrix \<Rightarrow> 'a matrix option" where
  construction: "init h variables_ref mean_arg cov_arg = (r, h') \<Longrightarrow> step linalg_inv h h'"
| precision_access: "precision_matrix linalg_inv h self = (r, h') \<Longrightarrow> step linalg_inv h h'"
| marginalization: "marginalize h self variables_arg inplace = (r, h') \<Longrightarrow> step linalg_inv h h'"
| copying: "copy h self = (r, h') \<Longrightarrow> step linalg_inv h h'"

text \<open>
  The stores that the public operations can produce, from a store without instances
  (the caller's lists and arrays may be there already).
\<close>

inductive reachable ::
  "('a matrix \<Rightarrow> 'a matrix option) \<Rightarrow> ('v, 'a) heap \<Rightarrow> bool"
  for linalg_inv :: "'a matrix \<Rightarrow> 'a matrix option" where
  initial: "objects h = [] \<Longrightarrow> reachable linalg_inv h"
| caller_list: "reachable linalg_inv h \<Longrightarrow> reachable linalg_inv (h\<lparr>pylists := pylists h @ [vs]\<rparr>)"
| operation: "reachable linalg_inv h \<Longrightarrow> step linalg_inv h h' \<Longrightarrow> reachable linalg_inv h'"

text \<open>
  The cache invariant: a cached precision matrix is what the inversion returns for the
  covariance matrix the instance holds now.
\<close>

definition cache_ok :: "('a matrix \<Rightarrow> 'a matrix option) \<Rightarrow> ('v, 'a) heap \<Rightarrow> bool" where
  "cache_ok linalg_inv h =
     list_all (\<lambda>d. case cached_precision d of
                     None \<Rightarrow> True
                   | Some p \<Rightarrow>
                       p < length (arrays h) \<and> covariance_matrix d < length (arrays h) \<and>
                       linalg_inv (arrays h ! covariance_matrix d) = Some (arrays h ! p))
              (objects h)"

text \<open>
  A step keeps the invariant when every cached reference of the new store is one that
  an instance of the old store had, for a covariance matrix with the same value, or is
  the inverse of the covariance matrix it now belongs to.
\<close>

definition keeps_cache ::
  "('a matrix \<Rightarrow> 'a matrix option) \<Rightarrow> ('v, 'a) heap \<Rightarrow> ('v, 'a) heap \<Rightarrow> bool" where
  "keeps_cache linalg_inv h h' =
     (\<forall>b < length (objects h'). \<forall>p. cached_precision (objects h' ! b) = Some p \<longrightarrow>
        (\<exists>b0 < length (objects h).
           cached_precision (objects h ! b0) = Some p \<and>
           (covariance_matrix (objects h' ! b) = covariance_matrix (objects h ! b0) \<or>
            covariance_matrix (objects h' ! b) < length (arrays h') \<and>
            arrays h' ! covariance_matrix (objects h' ! b) =
              arrays h ! covariance_matrix (objects h ! b0))) \<or>
        (p < length (arrays h') \<and> covariance_matrix (objects h' ! b) < length (arrays h') \<and>
         linalg_inv (arrays h' ! covariance_matrix (objects h' ! b)) = Some (arrays h' ! p)))"

section \<open>Matrix products and the contract of the inversion\<close>

definition mat_mul :: "'a::semiring_1 matrix \<Rightarrow> 'a matrix \<Rightarrow> 'a matrix" where
  "mat_mul a b =
     \<lparr>nrows = nrows a, ncols = ncols b,
      elems = concat (map (\<lambda>i. map (\<lambda>j. sum_list (map (\<lambda>k. entry a i k * entry b k j)
                                                      [0..<ncols a]))
                                  [0..<ncols b])
                          [0..<nrows a])\<rparr>"

definition identity_matrix :: "nat \<Rightarrow> 'a::semiring_1 matrix" where
  "identity_matrix n =
     \<lparr>nrows = n, ncols = n,
      elems = concat (map (\<lambda>i. map (\<lambda>j. if i = j then 1 else 0) [0..<n]) [0..<n])\<rparr>"

text \<open>
  What the specification assumes of the linear-algebra library ("correct and exact"):
  a matrix that the inversion returns is an inverse of its argument.
\<close>

definition exact_inverse :: "('a::semiring_1 matrix \<Rightarrow> 'a matrix option) \<Rightarrow> bool" where
  "exact_inverse linalg_inv =
     (\<forall>m p. linalg_inv m = Some p \<longrightarrow> mat_mul p m = identity_matrix (nrows m))"

text \<open>
  A square matrix that has as many elements as its dimensions say, and an inverse of
  such a matrix. A matrix is singular (not invertible) when it has no inverse.
\<close>

definition square :: "'a matrix \<Rightarrow> bool" where
  "square m = (nrows m = ncols m \<and> length (elems m) = nrows m * ncols m)"

definition is_inverse :: "'a::semiring_1 matrix \<Rightarrow> 'a matrix \<Rightarrow> bool" where
  "is_inverse p m =
     (square p \<and> nrows p = nrows m \<and>
      mat_mul p m = identity_matrix (nrows m) \<and> mat_mul m p = identity_matrix (nrows m))"

definition singular :: "'a::semiring_1 matrix \<Rightarrow> bool" where
  "singular m = (\<not> (\<exists>p. is_inverse p m))"

text \<open>
  The whole contract of \<open>np.linalg.inv\<close> that the specification assumes: on a square
  matrix it raises \<open>LinAlgError\<close> when the matrix is singular, and returns an inverse of
  the matrix when there is one.
\<close>

definition inversion_contract :: "('a::semiring_1 matrix \<Rightarrow> 'a matrix option) \<Rightarrow> bool" where
  "inversion_contract linalg_inv =
     (\<forall>m. square m \<longrightarrow>
        (case linalg_inv m of None \<Rightarrow> singular m | Some p \<Rightarrow> is_inverse p m))"

section \<open>An exact inversion\<close>

text \<open>
  \<open>np.linalg.inv\<close> is numpy's, and the methods take it as a parameter. An inversion that
  meets the contract over any field is Gauss-Jordan elimination: the rows of the matrix,
  each followed by the row of the identity matrix, are reduced column by column; when a
  column has no pivot the matrix is singular, and otherwise the right halves of the
  reduced rows are the rows of the inverse.
\<close>

text \<open>\<open>c * r\<close> and \<open>r - c * p\<close> on rows.\<close>

definition scale_row :: "'a::field \<Rightarrow> 'a list \<Rightarrow> 'a list" where
  "scale_row c r = map (\<lambda>x. c * x) r"

definition sub_row :: "'a::field list \<Rightarrow> 'a \<Rightarrow> 'a list \<Rightarrow> 'a list" where
  "sub_row r c p = map2 (\<lambda>x y. x - c * y) r p"

text \<open>The first row with a non-zero entry in column \<open>k\<close>, and the other rows.\<close>

fun pick_pivot :: "nat \<Rightarrow> 'a::field list list \<Rightarrow> ('a list \<times> 'a list list) option" where
  "pick_pivot k [] = None"
| "pick_pivot k (r # rs) =
     (if r ! k \<noteq> 0 then Some (r, rs)
      else (case pick_pivot k rs of None \<Rightarrow> None | Some (p, rest) \<Rightarrow> Some (p, r # rest)))"

text \<open>
  The elimination, over the columns that are left: \<open>ds\<close> are the rows that have had
  their pivot (the row of column \<open>i\<close> at position \<open>i\<close>), \<open>ts\<close> the rows that have not.
  The pivot row is scaled to have 1 in column \<open>k\<close> and subtracted from every other row.
\<close>

fun gauss_jordan ::
  "nat list \<Rightarrow> 'a::field list list \<Rightarrow> 'a list list \<Rightarrow> 'a list list option" where
  "gauss_jordan [] ds ts = Some ds"
| "gauss_jordan (k # ks) ds ts =
     (case pick_pivot k ts of
        None \<Rightarrow> None
      | Some (p, rest) \<Rightarrow>
          gauss_jordan ks
            (map (\<lambda>r. sub_row r (r ! k) (scale_row (inverse (p ! k)) p)) ds @
               [scale_row (inverse (p ! k)) p])
            (map (\<lambda>r. sub_row r (r ! k) (scale_row (inverse (p ! k)) p)) rest))"

definition augmented :: "'a::field matrix \<Rightarrow> 'a list list" where
  "augmented m =
     map (\<lambda>i. map (\<lambda>j. entry m i j) [0..<ncols m] @
              map (\<lambda>j. if i = j then 1 else 0) [0..<nrows m])
         [0..<nrows m]"

text \<open>The inversion: \<open>None\<close> for a matrix that is not square or is singular.\<close>

definition gauss_inv :: "'a::field matrix \<Rightarrow> 'a matrix option" where
  "gauss_inv m =
     (if \<not> square m then None
      else (case gauss_jordan [0..<nrows m] [] (augmented m) of
              None \<Rightarrow> None
            | Some rows \<Rightarrow>
                Some \<lparr>nrows = nrows m, ncols = nrows m,
                      elems = concat (map (drop (nrows m)) rows)\<rparr>))"

text \<open>
  Two notions for the proof that \<open>gauss_inv\<close> meets the contract. A property of rows of
  length \<open>l\<close> that scaling a row and subtracting a multiple of another row keep; and the
  state of the elimination before column \<open>k\<close> of an \<open>n x n\<close> matrix: the rows in \<open>ds\<close> are
  those of the identity matrix in the first \<open>k\<close> columns, the rows in \<open>ts\<close> are zero
  there.
\<close>

definition row_closed :: "nat \<Rightarrow> ('a::field list \<Rightarrow> bool) \<Rightarrow> bool" where
  "row_closed l P =
     ((\<forall>c r. length r = l \<longrightarrow> P r \<longrightarrow> P (scale_row c r)) \<and>
      (\<forall>c r p. length r = l \<longrightarrow> length p = l \<longrightarrow> P r \<longrightarrow> P p \<longrightarrow> P (sub_row r c p)))"

definition reduced :: "nat \<Rightarrow> nat \<Rightarrow> 'a::field list list \<Rightarrow> 'a list list \<Rightarrow> bool" where
  "reduced n k ds ts =
     (length ds = k \<and> k + length ts = n \<and>
      (\<forall>r \<in> set ds \<union> set ts. length r = 2 * n) \<and>
      (\<forall>i < k. \<forall>c < k. ds ! i ! c = (if i = c then 1 else 0)) \<and>
      (\<forall>r \<in> set ts. \<forall>c < k. r ! c = 0))"

section \<open>A caller writing into a list\<close>

text \<open>
  The attributes are public, so a caller can write into the objects they refer to:
  \<open>d.variables[i] = v\<close> is an item assignment on the list object at \<open>ref\<close>.
\<close>

definition list_setitem :: "('v, 'a) heap \<Rightarrow> addr \<Rightarrow> nat \<Rightarrow> 'v \<Rightarrow> ('v, 'a) heap" where
  "list_setitem h ref i v = h\<lparr>pylists := (pylists h)[ref := (pylists h ! ref)[i := v]]\<rparr>"

section \<open>The example of the specification\<close>

text \<open>
  Variables \<open>x1, x2, x3\<close>, mean \<open>[1, -3, 4]\<close>, covariance
  \<open>[[4, 2, -2], [2, 5, -5], [-2, -5, 8]]\<close>: the arguments, the store of the caller
  before the construction (and one that holds the single variable \<open>x1\<close>), the store
  after it, and the value of the instance.
\<close>

definition ex_mean :: "real array_like" where
  "ex_mean = NdArray \<lparr>shape = [3, 1], data = [1, -3, 4]\<rparr>"

definition ex_cov :: "real array_like" where
  "ex_cov = NdArray \<lparr>shape = [3, 3], data = [4, 2, -2, 2, 5, -5, -2, -5, 8]\<rparr>"

definition ex_caller :: "(string, real) heap" where
  "ex_caller = \<lparr>pylists = [[''x1'', ''x2'', ''x3'']], arrays = [], objects = []\<rparr>"

definition ex_caller_single :: "(string, real) heap" where
  "ex_caller_single = \<lparr>pylists = [[''x1'']], arrays = [], objects = []\<rparr>"

definition ex_dist :: "(string, real) dist" where
  "ex_dist =
     \<lparr>vars = [''x1'', ''x2'', ''x3''],
      mean = \<lparr>nrows = 3, ncols = 1, elems = [1, -3, 4]\<rparr>,
      cov = \<lparr>nrows = 3, ncols = 3, elems = [4, 2, -2, 2, 5, -5, -2, -5, 8]\<rparr>,
      prec = None\<rparr>"

definition ex_heap :: "(string, real) heap" where
  "ex_heap =
     \<lparr>pylists = [vars ex_dist], arrays = [mean ex_dist, cov ex_dist],
      objects = [\<lparr>variables = 0, mean_vector = 0, covariance_matrix = 1,
                  cached_precision = None\<rparr>]\<rparr>"

text \<open>
  The inverses of the covariance matrix of the example and of its marginal on
  \<open>x1, x2\<close>. \<open>ex_inv\<close> is an inversion that knows these two matrices only.
\<close>

definition ex_precision :: "real matrix" where
  "ex_precision =
     \<lparr>nrows = 3, ncols = 3,
      elems = [5 / 16, - 1 / 8, 0, - 1 / 8, 7 / 12, 1 / 3, 0, 1 / 3, 1 / 3]\<rparr>"

definition ex_precision_12 :: "real matrix" where
  "ex_precision_12 = \<lparr>nrows = 2, ncols = 2, elems = [5 / 16, - 1 / 8, - 1 / 8, 1 / 4]\<rparr>"

definition ex_inv :: "real matrix \<Rightarrow> real matrix option" where
  "ex_inv m =
     (if m = cov ex_dist then Some ex_precision
      else if m = \<lparr>nrows = 2, ncols = 2, elems = [4, 2, 2, 5]\<rparr> then Some ex_precision_12
      else None)"

text \<open>
  The store of the example after the first access to \<open>precision_matrix\<close>, and the store
  of a distribution over the same variables whose covariance matrix is singular (all
  entries 1).
\<close>

definition ex_heap_cached :: "(string, real) heap" where
  "ex_heap_cached =
     \<lparr>pylists = [vars ex_dist], arrays = [mean ex_dist, cov ex_dist, ex_precision],
      objects = [\<lparr>variables = 0, mean_vector = 0, covariance_matrix = 1,
                  cached_precision = Some 2\<rparr>]\<rparr>"

definition ex_singular_dist :: "(string, real) dist" where
  "ex_singular_dist =
     ex_dist\<lparr>cov := \<lparr>nrows = 3, ncols = 3, elems = [1, 1, 1, 1, 1, 1, 1, 1, 1]\<rparr>\<rparr>"

definition ex_singular_heap :: "(string, real) heap" where
  "ex_singular_heap =
     \<lparr>pylists = [vars ex_singular_dist],
      arrays = [mean ex_singular_dist, cov ex_singular_dist],
      objects = [\<lparr>variables = 0, mean_vector = 0, covariance_matrix = 1,
                  cached_precision = None\<rparr>]\<rparr>"

section \<open>Properties of the values\<close>

text \<open>
  The positions that are kept are those of \<open>range(n)\<close> that were not looked up, in
  ascending order.
\<close>

lemma index_to_keep_filter: "index_to_keep n idxs = filter (\<lambda>i. i \<notin> set idxs) [0..<n]"
proof -
  have "set [0..<n] - set idxs = set (filter (\<lambda>i. i \<notin> set idxs) [0..<n])"
    by auto
  moreover have "sorted (filter (\<lambda>i. i \<notin> set idxs) [0..<n])"
    by (simp add: sorted_wrt_filter)
  moreover have "distinct (filter (\<lambda>i. i \<notin> set idxs) [0..<n])"
    by simp
  ultimately show ?thesis
    unfolding index_to_keep_def
    by (simp only: sorted_list_of_set.idem_if_sorted_distinct)
qed

text \<open>
  \<open>list.index\<close> finds the first position of an element and raises \<open>ValueError\<close> for
  an element that is not in the list; so the comprehension over the removal list succeeds
  exactly when all its identifiers are variables.
\<close>

lemma list_index_Inr: "list_index vs v = Inr i \<Longrightarrow> i < length vs \<and> vs ! i = v"
  by (induction vs arbitrary: i) (auto split: if_splits sum.splits)

lemma list_index_Inl: "list_index vs v = Inl e \<Longrightarrow> e = ValueError \<and> v \<notin> set vs"
  by (induction vs) (auto split: if_splits sum.splits)

lemma list_index_distinct: "distinct vs \<Longrightarrow> i < length vs \<Longrightarrow> list_index vs (vs ! i) = Inr i"
proof (induction vs arbitrary: i)
  case Nil
  then show ?case by simp
next
  case (Cons x xs)
  then show ?case by (cases i) auto
qed

lemma var_indexes_Inl: "var_indexes vs rs = Inl e \<Longrightarrow> e = ValueError \<and> \<not> set rs \<subseteq> set vs"
  by (induction rs) (auto split: sum.splits dest: list_index_Inl)

lemma var_indexes_Inr:
  "var_indexes vs rs = Inr idxs \<Longrightarrow>
     set rs \<subseteq> set vs \<and> set idxs = {i. \<exists>v \<in> set rs. list_index vs v = Inr i}"
proof (induction rs arbitrary: idxs)
  case Nil
  then show ?case by auto
next
  case (Cons r rs)
  then show ?case
    by (auto split: sum.splits dest: list_index_Inr)
qed

text \<open>
  For distinct variables the positions that are kept are those of the variables that are
  not removed, as the specification has them.
\<close>

lemma index_to_keep_kept:
  assumes "distinct vs" "var_indexes vs rs = Inr idxs"
  shows "index_to_keep (length vs) idxs = kept vs rs"
proof -
  have "i \<in> set idxs \<longleftrightarrow> vs ! i \<in> set rs" if "i < length vs" for i
  proof
    assume "i \<in> set idxs"
    then obtain v where "v \<in> set rs" "list_index vs v = Inr i"
      using var_indexes_Inr[OF assms(2)] by auto
    then show "vs ! i \<in> set rs" using list_index_Inr by fastforce
  next
    assume "vs ! i \<in> set rs"
    then show "i \<in> set idxs"
      using var_indexes_Inr[OF assms(2)] list_index_distinct[OF assms(1) that] by auto
  qed
  then show ?thesis
    unfolding index_to_keep_filter kept_def by (auto intro: filter_cong)
qed

lemma var_indexes_ok: "set rs \<subseteq> set vs \<Longrightarrow> \<exists>idxs. var_indexes vs rs = Inr idxs"
  using var_indexes_Inl by (cases "var_indexes vs rs") auto

lemma map_nth_filter: "map (\<lambda>i. xs ! i) (filter (\<lambda>i. P (xs ! i)) [0..<length xs]) = filter P xs"
proof -
  have "filter P xs = filter P (map (\<lambda>i. xs ! i) [0..<length xs])"
    by (simp add: map_nth)
  also have "\<dots> = map (\<lambda>i. xs ! i) (filter (\<lambda>i. P (xs ! i)) [0..<length xs])"
    by (simp add: filter_map comp_def)
  finally show ?thesis by simp
qed

text \<open>
  Selecting rows of a column vector, and selecting all rows and columns of a matrix.
\<close>

lemma take_rows_column:
  "ncols m = 1 \<Longrightarrow> list_all (\<lambda>i. i < nrows m) idxs \<Longrightarrow>
   take_rows m idxs = Inr \<lparr>nrows = length idxs, ncols = 1, elems = map (\<lambda>i. elems m ! i) idxs\<rparr>"
  by (simp add: take_rows_def entry_def concat_map_singleton)

lemma concat_rows_all:
  "length xs = r * c \<Longrightarrow>
   concat (map (\<lambda>i. map (\<lambda>j. xs ! (i * c + j)) [0..<c]) [0..<r]) = xs"
proof (induction r arbitrary: xs)
  case 0
  then show ?case by simp
next
  case (Suc r)
  have len: "length (take (r * c) xs) = r * c" using Suc.prems by simp
  have "concat (map (\<lambda>i. map (\<lambda>j. xs ! (i * c + j)) [0..<c]) [0..<r])
      = concat (map (\<lambda>i. map (\<lambda>j. take (r * c) xs ! (i * c + j)) [0..<c]) [0..<r])"
  proof -
    have "i * c + j < r * c" if "i < r" "j < c" for i j
    proof -
      have "i * c + j < i * c + c" using that by simp
      also have "\<dots> = Suc i * c" by simp
      also have "\<dots> \<le> r * c" using that by (intro mult_le_mono1) simp
      finally show ?thesis .
    qed
    then show ?thesis by (auto intro!: arg_cong[where f=concat])
  qed
  also have "\<dots> = take (r * c) xs" using Suc.IH[OF len] .
  finally have a: "concat (map (\<lambda>i. map (\<lambda>j. xs ! (i * c + j)) [0..<c]) [0..<r]) = take (r * c) xs" .
  have b: "map (\<lambda>j. xs ! (r * c + j)) [0..<c] = drop (r * c) xs"
    using Suc.prems by (intro nth_equalityI) auto
  show ?case using a b by simp
qed

lemma nth_concat_uniform:
  assumes "a < length xs" "b < k" "\<And>x. x \<in> set xs \<Longrightarrow> length (f x) = k"
  shows "concat (map f xs) ! (a * k + b) = f (xs ! a) ! b"
  using assms
proof (induction xs arbitrary: a)
  case Nil
  then show ?case by simp
next
  case (Cons x xs)
  show ?case
  proof (cases a)
    case 0
    then show ?thesis using Cons.prems by (simp add: nth_append)
  next
    case (Suc a')
    then have "concat (map f (x # xs)) ! (a * k + b) = concat (map f xs) ! (a' * k + b)"
      using Cons.prems by (simp add: nth_append)
    also have "\<dots> = f (xs ! a') ! b"
      using Cons.prems Suc by (intro Cons.IH) auto
    finally show ?thesis using Suc by simp
  qed
qed

section \<open>Properties of the exact inversion\<close>

lemma pick_pivot_None: "pick_pivot k rs = None \<Longrightarrow> r \<in> set rs \<Longrightarrow> r ! k = 0"
  by (induction rs) (auto split: if_splits option.splits)

lemma pick_pivot_Some:
  "pick_pivot k rs = Some (p, rest) \<Longrightarrow>
     p ! k \<noteq> 0 \<and> set rs = insert p (set rest) \<and> length rs = Suc (length rest)"
  by (induction rs arbitrary: p rest) (auto split: if_splits option.splits)

lemma length_scale_row [simp]: "length (scale_row c r) = length r"
  by (simp add: scale_row_def)

lemma length_sub_row [simp]: "length (sub_row r c p) = min (length r) (length p)"
  by (simp add: sub_row_def)

lemma nth_scale_row [simp]: "i < length r \<Longrightarrow> scale_row c r ! i = c * r ! i"
  by (simp add: scale_row_def)

lemma nth_sub_row [simp]:
  "i < length r \<Longrightarrow> i < length p \<Longrightarrow> sub_row r c p ! i = r ! i - c * p ! i"
  by (simp add: sub_row_def)

lemma scale_row_inverse: "c \<noteq> 0 \<Longrightarrow> scale_row c (scale_row (inverse c) r) = r"
  by (simp add: scale_row_def o_def map_idI)

lemma sub_row_inverse: "length r = length p \<Longrightarrow> sub_row (sub_row r c p) (- c) p = r"
  by (intro nth_equalityI) simp_all

text \<open>
  Properties that linear combinations keep: they hold of the rows after a step of the
  elimination when they hold of the rows before it, and the other way round, since every
  step can be undone by steps of the same two kinds.
\<close>

lemma comb_closed:
  fixes a :: "nat \<Rightarrow> nat \<Rightarrow> 'a::field" and n l :: nat
  assumes "\<forall>j < n. f j < l" "\<forall>i < n. g i < l"
  shows "row_closed l (\<lambda>r. \<forall>j < n. r ! f j = (\<Sum>i < n. r ! g i * a i j))"
  unfolding row_closed_def
proof (intro conjI allI impI)
  fix c :: 'a and r :: "'a list" and j
  assume l: "length r = l" and P: "\<forall>j < n. r ! f j = (\<Sum>i < n. r ! g i * a i j)" and j: "j < n"
  have "scale_row c r ! f j = c * r ! f j" using assms l j by simp
  also have "\<dots> = c * (\<Sum>i < n. r ! g i * a i j)" using P j by simp
  also have "\<dots> = (\<Sum>i < n. c * r ! g i * a i j)" by (simp add: sum_distrib_left mult.assoc)
  also have "\<dots> = (\<Sum>i < n. scale_row c r ! g i * a i j)"
    using assms l by (intro sum.cong) simp_all
  finally show "scale_row c r ! f j = (\<Sum>i < n. scale_row c r ! g i * a i j)" .
next
  fix c :: 'a and r p :: "'a list" and j
  assume l: "length r = l" "length p = l"
    and P: "\<forall>j < n. r ! f j = (\<Sum>i < n. r ! g i * a i j)"
      "\<forall>j < n. p ! f j = (\<Sum>i < n. p ! g i * a i j)" and j: "j < n"
  have "sub_row r c p ! f j = r ! f j - c * p ! f j" using assms l j by simp
  also have "\<dots> = (\<Sum>i < n. r ! g i * a i j) - c * (\<Sum>i < n. p ! g i * a i j)"
    using P j by simp
  also have "\<dots> = (\<Sum>i < n. (r ! g i - c * p ! g i) * a i j)"
    by (simp add: sum_distrib_left sum_subtractf left_diff_distrib mult.assoc)
  also have "\<dots> = (\<Sum>i < n. sub_row r c p ! g i * a i j)"
    using assms l by (intro sum.cong) simp_all
  finally show "sub_row r c p ! f j = (\<Sum>i < n. sub_row r c p ! g i * a i j)" .
qed

lemma null_closed:
  fixes x :: "nat \<Rightarrow> 'a::field" and n l :: nat
  assumes "n \<le> l"
  shows "row_closed l (\<lambda>r. (\<Sum>j < n. r ! j * x j) = 0)"
  unfolding row_closed_def
proof (intro conjI allI impI)
  fix c :: 'a and r :: "'a list"
  assume l: "length r = l" and P: "(\<Sum>j < n. r ! j * x j) = 0"
  have "(\<Sum>j < n. scale_row c r ! j * x j) = (\<Sum>j < n. c * (r ! j * x j))"
    using assms l by (intro sum.cong) (simp_all add: mult.assoc)
  also have "\<dots> = 0" using P by (simp add: sum_distrib_left[symmetric])
  finally show "(\<Sum>j < n. scale_row c r ! j * x j) = 0" .
next
  fix c :: 'a and r p :: "'a list"
  assume l: "length r = l" "length p = l"
    and P: "(\<Sum>j < n. r ! j * x j) = 0" "(\<Sum>j < n. p ! j * x j) = 0"
  have "(\<Sum>j < n. sub_row r c p ! j * x j) = (\<Sum>j < n. r ! j * x j - c * (p ! j * x j))"
    using assms l by (intro sum.cong) (simp_all add: left_diff_distrib mult.assoc)
  also have "\<dots> = 0" using P by (simp add: sum_subtractf sum_distrib_left[symmetric])
  finally show "(\<Sum>j < n. sub_row r c p ! j * x j) = 0" .
qed

lemma step_forward:
  assumes c: "row_closed l P" and a: "\<forall>r \<in> set ds \<union> set ts. length r = l \<and> P r"
    and p: "pick_pivot k ts = Some (p, rest)" and q: "q = scale_row (inverse (p ! k)) p"
  shows "\<forall>r \<in> set (map (\<lambda>r. sub_row r (r ! k) q) ds @ [q]) \<union>
               set (map (\<lambda>r. sub_row r (r ! k) q) rest). length r = l \<and> P r"
proof -
  from pick_pivot_Some[OF p] have s: "set ts = insert p (set rest)" by simp
  with a have pp: "length p = l" "P p" by auto
  with c q have qq: "length q = l" "P q" by (auto simp: row_closed_def)
  have "length (sub_row r (r ! k) q) = l \<and> P (sub_row r (r ! k) q)"
    if "r \<in> set ds \<union> set rest" for r
  proof -
    from that a s have "length r = l" "P r" by auto
    with c qq show ?thesis by (auto simp: row_closed_def)
  qed
  with qq show ?thesis by auto
qed

lemma step_backward:
  assumes c: "row_closed l P" and a: "\<forall>r \<in> set ds \<union> set ts. length r = l"
    and p: "pick_pivot k ts = Some (p, rest)" and q: "q = scale_row (inverse (p ! k)) p"
    and n: "\<forall>r \<in> set (map (\<lambda>r. sub_row r (r ! k) q) ds @ [q]) \<union>
               set (map (\<lambda>r. sub_row r (r ! k) q) rest). P r"
  shows "\<forall>r \<in> set ds \<union> set ts. P r"
proof -
  from pick_pivot_Some[OF p] have s: "set ts = insert p (set rest)" and nz: "p ! k \<noteq> 0"
    by simp_all
  from a s have lp: "length p = l" by auto
  then have lq: "length q = l" using q by simp
  from n have Pq: "P q" by simp
  have "p = scale_row (p ! k) q" using nz q by (simp add: scale_row_inverse)
  with c lq Pq have Pp: "P p" by (metis row_closed_def)
  have "P r" if r: "r \<in> set ds \<union> set rest" for r
  proof -
    from r a s have lr: "length r = l" by auto
    from r n have P1: "P (sub_row r (r ! k) q)" by auto
    have "sub_row (sub_row r (r ! k) q) (- (r ! k)) q = r"
      using lr lq by (simp add: sub_row_inverse)
    moreover have "length (sub_row r (r ! k) q) = l" using lr lq by simp
    ultimately show ?thesis using c P1 Pq lq by (metis row_closed_def)
  qed
  with Pp s show ?thesis by auto
qed

lemma gj_forward:
  assumes "gauss_jordan ks ds ts = Some res" "row_closed l P"
    "\<forall>r \<in> set ds \<union> set ts. length r = l \<and> P r"
  shows "\<forall>r \<in> set res. length r = l \<and> P r"
  using assms
proof (induction ks arbitrary: ds ts)
  case Nil
  then show ?case by simp
next
  case (Cons k ks)
  from Cons.prems(1) obtain p rest where p: "pick_pivot k ts = Some (p, rest)"
    by (auto split: option.splits)
  define q where "q = scale_row (inverse (p ! k)) p"
  from Cons.prems(1) p have g: "gauss_jordan ks (map (\<lambda>r. sub_row r (r ! k) q) ds @ [q])
      (map (\<lambda>r. sub_row r (r ! k) q) rest) = Some res"
    by (simp add: q_def)
  from step_forward[OF Cons.prems(2,3) p q_def] Cons.IH[OF g Cons.prems(2)]
  show ?case by blast
qed

lemma gj_backward:
  assumes "gauss_jordan ks ds ts = Some res" "row_closed l P" "length ts = length ks"
    "\<forall>r \<in> set ds \<union> set ts. length r = l" "\<forall>r \<in> set res. P r"
  shows "\<forall>r \<in> set ds \<union> set ts. P r"
  using assms
proof (induction ks arbitrary: ds ts)
  case Nil
  then show ?case by simp
next
  case (Cons k ks)
  from Cons.prems(1) obtain p rest where p: "pick_pivot k ts = Some (p, rest)"
    by (auto split: option.splits)
  define q where "q = scale_row (inverse (p ! k)) p"
  let ?ds = "map (\<lambda>r. sub_row r (r ! k) q) ds @ [q]"
  let ?ts = "map (\<lambda>r. sub_row r (r ! k) q) rest"
  from Cons.prems(1) p have g: "gauss_jordan ks ?ds ?ts = Some res"
    by (simp add: q_def)
  have len: "length ?ts = length ks" using pick_pivot_Some[OF p] Cons.prems(3) by simp
  have "row_closed l (\<lambda>r. True)" by (simp add: row_closed_def)
  from step_forward[OF this _ p q_def, of ds] Cons.prems(4)
  have ll: "\<forall>r \<in> set ?ds \<union> set ?ts. length r = l" by simp
  from Cons.IH[OF g Cons.prems(2) len ll Cons.prems(5)]
  have "\<forall>r \<in> set ?ds \<union> set ?ts. P r" .
  from step_backward[OF Cons.prems(2,4) p q_def this] show ?case .
qed

text \<open>
  A step of the elimination reduces one more column, so a run that ends has reduced the
  left half of the rows to the identity matrix.
\<close>

lemma reduced_step:
  assumes r: "reduced n k ds ts" and p: "pick_pivot k ts = Some (p, rest)"
    and q: "q = scale_row (inverse (p ! k)) p"
  shows "reduced n (Suc k) (map (\<lambda>r. sub_row r (r ! k) q) ds @ [q])
           (map (\<lambda>r. sub_row r (r ! k) q) rest)"
proof -
  from pick_pivot_Some[OF p] have s: "set ts = insert p (set rest)" and nz: "p ! k \<noteq> 0"
    and lt: "length ts = Suc (length rest)" by simp_all
  from r have ld: "length ds = k" and kn: "k + length ts = n"
    and len: "\<And>r. r \<in> set ds \<union> set ts \<Longrightarrow> length r = 2 * n"
    and unit: "\<And>i c. i < k \<Longrightarrow> c < k \<Longrightarrow> ds ! i ! c = (if i = c then 1 else 0)"
    and zero: "\<And>r c. r \<in> set ts \<Longrightarrow> c < k \<Longrightarrow> r ! c = 0"
    by (auto simp: reduced_def)
  from kn lt have k: "k < n" by simp
  have lp: "length p = 2 * n" using len s by simp
  have lq: "length q = 2 * n" using lp q by simp
  have qk: "q ! k = 1" using q lp k nz by simp
  have q0: "q ! c = 0" if "c < k" for c using q lp k that zero[of p c] s by simp
  let ?e = "\<lambda>r. sub_row r (r ! k) q"
  have le: "length (?e r) = 2 * n" if "r \<in> set ds \<union> set rest" for r
    using len[of r] that s lq by auto
  have e_lt: "?e r ! c = r ! c" if "r \<in> set ds \<union> set rest" "c < k" for r c
    using len[of r] that s lq k q0[of c] by auto
  have e_k: "?e r ! k = 0" if "r \<in> set ds \<union> set rest" for r
    using len[of r] that s lq k qk by auto
  have 1: "length (map ?e ds @ [q]) = Suc k" using ld by simp
  have 2: "Suc k + length (map ?e rest) = n" using kn lt by simp
  have 3: "\<forall>r \<in> set (map ?e ds @ [q]) \<union> set (map ?e rest). length r = 2 * n"
    using le lq by auto
  have 4: "(map ?e ds @ [q]) ! i ! c = (if i = c then 1 else 0)"
    if i: "i < Suc k" and c: "c < Suc k" for i c
  proof (cases "i < k")
    case True
    then have m: "(map ?e ds @ [q]) ! i = ?e (ds ! i)" and d: "ds ! i \<in> set ds"
      using ld by (simp_all add: nth_append)
    show ?thesis
    proof (cases "c < k")
      case True
      then show ?thesis using m d e_lt[of "ds ! i" c] unit[of i c] \<open>i < k\<close> by simp
    next
      case False
      then have "c = k" using c by simp
      then show ?thesis using m d e_k[of "ds ! i"] \<open>i < k\<close> by simp
    qed
  next
    case False
    then have ik: "i = k" using i by simp
    then have m: "(map ?e ds @ [q]) ! i = q" using ld by (simp add: nth_append)
    show ?thesis
    proof (cases "c < k")
      case True
      then show ?thesis using m ik q0[of c] by simp
    next
      case False
      then have "c = k" using c by simp
      then show ?thesis using m ik qk by simp
    qed
  qed
  have 5: "r ! c = 0" if "r \<in> set (map ?e rest)" "c < Suc k" for r c
  proof -
    from that(1) obtain r0 where r0: "r0 \<in> set rest" "r = ?e r0" by auto
    show ?thesis
    proof (cases "c < k")
      case True
      then show ?thesis using r0 e_lt[of r0 c] zero[of r0 c] s by simp
    next
      case False
      then have "c = k" using that(2) by simp
      then show ?thesis using r0 e_k[of r0] by simp
    qed
  qed
  from 1 2 3 4 5 show ?thesis unfolding reduced_def by blast
qed

lemma gj_reduced:
  assumes "gauss_jordan [k..<n] ds ts = Some res" "reduced n k ds ts"
  shows "reduced n n res []"
  using assms
proof (induction "n - k" arbitrary: k ds ts)
  case 0
  then have "k = n" "ts = []" by (auto simp: reduced_def)
  with 0 show ?case by simp
next
  case (Suc d)
  then have k: "k < n" by simp
  then have u: "[k..<n] = k # [Suc k..<n]" by (simp add: upt_conv_Cons)
  from Suc.prems(1) obtain p rest where p: "pick_pivot k ts = Some (p, rest)"
    unfolding u by (auto split: option.splits)
  define q where "q = scale_row (inverse (p ! k)) p"
  from Suc.prems(1) p have g: "gauss_jordan [Suc k..<n] (map (\<lambda>r. sub_row r (r ! k) q) ds @ [q])
      (map (\<lambda>r. sub_row r (r ! k) q) rest) = Some res"
    unfolding u by (simp add: q_def)
  from Suc.hyps(2) have d: "d = n - Suc k" by simp
  from Suc.hyps(1)[OF d g reduced_step[OF Suc.prems(2) p q_def]] show ?case .
qed

text \<open>
  When a column has no pivot, a vector that is not zero is orthogonal to the left halves
  of all rows, those of the matrix at the start included.
\<close>

lemma no_pivot_null:
  fixes ds ts :: "'a::field list list"
  assumes r: "reduced n k ds ts" and p: "pick_pivot k ts = None" and k: "k < n"
  defines "x \<equiv> \<lambda>j. if j < k then - (ds ! j ! k) else if j = k then 1 else 0"
  shows "\<forall>r \<in> set ds \<union> set ts. (\<Sum>j < n. r ! j * x j) = 0"
proof
  fix r assume "r \<in> set ds \<union> set ts"
  then consider (d) "r \<in> set ds" | (t) "r \<in> set ts" by auto
  then show "(\<Sum>j < n. r ! j * x j) = 0"
  proof cases
    case t
    have "r ! j * x j = 0" if "j < n" for j
    proof (cases "j \<le> k")
      case True
      then have "r ! j = 0"
        using r t pick_pivot_None[OF p t] by (cases "j = k") (auto simp: reduced_def)
      then show ?thesis by simp
    next
      case False
      then show ?thesis by (simp add: x_def)
    qed
    then have "\<forall>j \<in> {..<n}. r ! j * x j = 0" by blast
    then show ?thesis by (rule sum.neutral)
  next
    case d
    then obtain i where i: "i < k" "r = ds ! i"
      using r by (auto simp: reduced_def in_set_conv_nth)
    have "r ! j * x j = (if j = i then - (r ! k) else 0) + (if j = k then r ! k else 0)"
      if "j < n" for j
    proof -
      consider "j < k" | "j = k" | "k < j" by linarith
      then show ?thesis
      proof cases
        case 1
        then have "r ! j = (if i = j then 1 else 0)" using r i by (simp add: reduced_def)
        then show ?thesis using 1 i by (auto simp: x_def)
      next
        case 2
        then show ?thesis using i by (simp add: x_def)
      next
        case 3
        then show ?thesis using i by (simp add: x_def)
      qed
    qed
    then have "(\<Sum>j < n. r ! j * x j)
        = (\<Sum>j < n. (if j = i then - (r ! k) else 0) + (if j = k then r ! k else 0))"
      by (intro sum.cong) simp_all
    also have "\<dots> = 0" using i k by (simp add: sum.distrib)
    finally show ?thesis .
  qed
qed

lemma gj_none:
  fixes ds ts :: "'a::field list list"
  assumes "gauss_jordan [k..<n] ds ts = None" "reduced n k ds ts"
  shows "\<exists>x k0. k0 < n \<and> x k0 = (1::'a) \<and> (\<forall>r \<in> set ds \<union> set ts. (\<Sum>j < n. r ! j * x j) = 0)"
  using assms
proof (induction "n - k" arbitrary: k ds ts)
  case 0
  then have "k = n" by (auto simp: reduced_def)
  with 0 show ?case by simp
next
  case (Suc d)
  then have k: "k < n" by simp
  then have u: "[k..<n] = k # [Suc k..<n]" by (simp add: upt_conv_Cons)
  show ?case
  proof (cases "pick_pivot k ts")
    case None
    let ?x = "\<lambda>j. if j < k then - (ds ! j ! k) else if j = k then (1::'a) else 0"
    from no_pivot_null[OF Suc.prems(2) None k]
    have "\<forall>r \<in> set ds \<union> set ts. (\<Sum>j < n. r ! j * ?x j) = 0" .
    with k have "k < n \<and> ?x k = 1 \<and> (\<forall>r \<in> set ds \<union> set ts. (\<Sum>j < n. r ! j * ?x j) = 0)"
      by simp
    then show ?thesis by (intro exI[of _ ?x] exI[of _ k])
  next
    case (Some a)
    then obtain p rest where p: "pick_pivot k ts = Some (p, rest)" by (cases a) simp
    define q where "q = scale_row (inverse (p ! k)) p"
    let ?ds = "map (\<lambda>r. sub_row r (r ! k) q) ds @ [q]"
    let ?ts = "map (\<lambda>r. sub_row r (r ! k) q) rest"
    from Suc.prems(1) p have g: "gauss_jordan [Suc k..<n] ?ds ?ts = None"
      unfolding u by (simp add: q_def)
    from Suc.hyps(2) have d: "d = n - Suc k" by simp
    from Suc.hyps(1)[OF d g reduced_step[OF Suc.prems(2) p q_def]]
    obtain x k0 where x: "k0 < n" "x k0 = (1::'a)"
      "\<forall>r \<in> set ?ds \<union> set ?ts. (\<Sum>j < n. r ! j * x j) = 0" by blast
    have c: "row_closed (2 * n) (\<lambda>r. (\<Sum>j < n. r ! j * x j) = 0)"
      by (rule null_closed) simp
    have l: "\<forall>r \<in> set ds \<union> set ts. length r = 2 * n"
      using Suc.prems(2) by (simp add: reduced_def)
    from step_backward[OF c l p q_def x(3)] x(1,2) show ?thesis by blast
  qed
qed

text \<open>Matrices that are given row by row are equal when their entries are.\<close>

lemma sum_list_upt: "sum_list (map f [0..<n]) = (\<Sum>k < n. f k)"
  by (simp add: interv_sum_list_conv_sum_set_nat atLeast0LessThan)

lemma sum_unit_row:
  fixes f :: "nat \<Rightarrow> 'a::semiring_1"
  assumes "k < n"
  shows "(\<Sum>j < n. (if k = j then 1 else 0) * f j) = f k"
proof -
  have "(\<Sum>j < n. (if k = j then 1 else 0) * f j) = (\<Sum>j < n. if j = k then f j else 0)"
    by (intro sum.cong) auto
  also have "\<dots> = f k" using assms by simp
  finally show ?thesis .
qed

lemma concat_rows_eq_iff:
  "concat (map (\<lambda>i. map (F i) [0..<c]) [0..<r]) = concat (map (\<lambda>i. map (G i) [0..<c]) [0..<r])
     \<longleftrightarrow> (\<forall>i < r. \<forall>j < c. F i j = G i j)"
proof
  assume e: "concat (map (\<lambda>i. map (F i) [0..<c]) [0..<r])
      = concat (map (\<lambda>i. map (G i) [0..<c]) [0..<r])"
  show "\<forall>i < r. \<forall>j < c. F i j = G i j"
  proof (intro allI impI)
    fix i j assume i: "i < r" and j: "j < c"
    have "concat (map (\<lambda>i. map (F i) [0..<c]) [0..<r]) ! (i * c + j) = F i j"
      using i j by (subst nth_concat_uniform) simp_all
    moreover have "concat (map (\<lambda>i. map (G i) [0..<c]) [0..<r]) ! (i * c + j) = G i j"
      using i j by (subst nth_concat_uniform) simp_all
    ultimately show "F i j = G i j" using e by simp
  qed
next
  assume "\<forall>i < r. \<forall>j < c. F i j = G i j"
  then show "concat (map (\<lambda>i. map (F i) [0..<c]) [0..<r])
      = concat (map (\<lambda>i. map (G i) [0..<c]) [0..<r])"
    by (intro arg_cong[where f = concat] map_cong) simp_all
qed

lemma mat_mul_identity_iff:
  fixes a b :: "'a::semiring_1 matrix"
  assumes "nrows a = n" "ncols a = n" "ncols b = n"
  shows "mat_mul a b = identity_matrix n \<longleftrightarrow>
     (\<forall>i < n. \<forall>j < n. (\<Sum>k < n. entry a i k * entry b k j) = (if i = j then 1 else 0))"
  using assms by (simp add: mat_mul_def identity_matrix_def concat_rows_eq_iff sum_list_upt)

text \<open>The rows at the start of the elimination.\<close>

lemma augmented_rows:
  assumes "square m" "i < nrows m"
  shows "length (augmented m) = nrows m" "length (augmented m ! i) = 2 * nrows m"
    and "\<And>j. j < nrows m \<Longrightarrow> augmented m ! i ! j = entry m i j"
    and "\<And>j. j < nrows m \<Longrightarrow> augmented m ! i ! (nrows m + j) = (if i = j then 1 else 0)"
  using assms by (simp_all add: augmented_def square_def nth_append)

lemma augmented_reduced:
  assumes "square m"
  shows "reduced (nrows m) 0 [] (augmented m)"
  using assms by (auto simp: reduced_def augmented_def square_def)

lemma augmented_set:
  assumes "square m"
  shows "(\<forall>r \<in> set (augmented m). P r) \<longleftrightarrow> (\<forall>i < nrows m. P (augmented m ! i))"
  using augmented_rows(1)[OF assms] by (cases "nrows m = 0") (auto simp: all_set_conv_all_nth augmented_def)

text \<open>
  A run that ends gives an inverse: the rows at the end are linear combinations of the
  rows at the start, and the other way round.
\<close>

lemma length_concat_uniform:
  assumes "\<And>x. x \<in> set xs \<Longrightarrow> length (f x) = k"
  shows "length (concat (map f xs)) = length xs * k"
  using assms by (induction xs) simp_all

lemma gauss_jordan_inverse:
  fixes m :: "'a::field matrix"
  assumes sq: "square m" and g: "gauss_jordan [0..<nrows m] [] (augmented m) = Some res"
  shows "is_inverse \<lparr>nrows = nrows m, ncols = nrows m,
                     elems = concat (map (drop (nrows m)) res)\<rparr> m"
proof -
  let ?n = "nrows m"
  let ?p = "\<lparr>nrows = ?n, ncols = ?n, elems = concat (map (drop ?n) res)\<rparr>"
  from sq have cm: "ncols m = ?n" by (simp add: square_def)
  from gj_reduced[OF g augmented_reduced[OF sq]]
  have lres: "length res = ?n" and lrow: "\<And>r. r \<in> set res \<Longrightarrow> length r = 2 * ?n"
    and unit: "\<And>i c. i < ?n \<Longrightarrow> c < ?n \<Longrightarrow> res ! i ! c = (if i = c then 1 else 0)"
    by (auto simp: reduced_def)
  have ld: "length (drop ?n r) = ?n" if "r \<in> set res" for r using lrow[OF that] by simp
  have ep: "entry ?p i l = res ! i ! (?n + l)" if "i < ?n" "l < ?n" for i l
  proof -
    have "entry ?p i l = concat (map (drop ?n) res) ! (i * ?n + l)" by (simp add: entry_def)
    also have "\<dots> = drop ?n (res ! i) ! l"
      using that lres ld by (intro nth_concat_uniform) simp_all
    also have "\<dots> = res ! i ! (?n + l)"
      using that lres lrow[of "res ! i"] by simp
    finally show ?thesis .
  qed
  have la: "\<forall>r \<in> set [] \<union> set (augmented m). length r = 2 * ?n"
    using augmented_rows(2)[OF sq] by (simp add: augmented_set[OF sq])
  let ?P = "\<lambda>r. \<forall>j < ?n. r ! j = (\<Sum>i < ?n. r ! (?n + i) * entry m i j)"
  have cP: "row_closed (2 * ?n) ?P"
    by (rule comb_closed[where f = "\<lambda>j. j" and g = "\<lambda>i. ?n + i" and a = "entry m"]) simp_all
  have "?P (augmented m ! i)" if "i < ?n" for i
    using that augmented_rows(3,4)[OF sq that] by (simp add: sum_unit_row)
  then have "\<forall>r \<in> set (augmented m). ?P r" by (simp add: augmented_set[OF sq])
  with la have "\<forall>r \<in> set [] \<union> set (augmented m). length r = 2 * ?n \<and> ?P r" by simp
  from gj_forward[OF g cP this] have P: "\<forall>r \<in> set res. ?P r" by simp
  have EA: "(\<Sum>l < ?n. entry ?p i l * entry m l j) = (if i = j then 1 else 0)"
    if "i < ?n" "j < ?n" for i j
  proof -
    from P that lres have "res ! i ! j = (\<Sum>l < ?n. res ! i ! (?n + l) * entry m l j)" by simp
    moreover have "(\<Sum>l < ?n. res ! i ! (?n + l) * entry m l j)
        = (\<Sum>l < ?n. entry ?p i l * entry m l j)"
      using ep that by (intro sum.cong) simp_all
    ultimately show ?thesis using unit[OF that] by simp
  qed
  let ?Q = "\<lambda>r. \<forall>j < ?n. r ! (?n + j) = (\<Sum>i < ?n. r ! i * (res ! i ! (?n + j)))"
  have cQ: "row_closed (2 * ?n) ?Q"
    by (rule comb_closed[where f = "\<lambda>j. ?n + j" and g = "\<lambda>i. i"
          and a = "\<lambda>i j. res ! i ! (?n + j)"]) simp_all
  have "?Q r" if "r \<in> set res" for r
  proof (intro allI impI)
    fix j assume j: "j < ?n"
    from that obtain i0 where i0: "i0 < ?n" "r = res ! i0"
      using lres by (auto simp: in_set_conv_nth)
    have "(\<Sum>i < ?n. r ! i * (res ! i ! (?n + j)))
        = (\<Sum>i < ?n. (if i0 = i then 1 else 0) * (res ! i ! (?n + j)))"
      using i0 unit by (intro sum.cong) simp_all
    also have "\<dots> = res ! i0 ! (?n + j)" using i0 by (simp add: sum_unit_row)
    finally show "r ! (?n + j) = (\<Sum>i < ?n. r ! i * (res ! i ! (?n + j)))" using i0 by simp
  qed
  then have Q: "\<forall>r \<in> set res. ?Q r" by blast
  have "length (augmented m) = length [0..<?n]"
    by (simp add: augmented_def)
  from gj_backward[OF g cQ this la Q] have "\<forall>r \<in> set (augmented m). ?Q r" by simp
  then have Q0: "\<forall>i < ?n. ?Q (augmented m ! i)" by (simp add: augmented_set[OF sq])
  have AE: "(\<Sum>l < ?n. entry m i l * entry ?p l j) = (if i = j then 1 else 0)"
    if "i < ?n" "j < ?n" for i j
  proof -
    from Q0 that have "augmented m ! i ! (?n + j)
        = (\<Sum>l < ?n. augmented m ! i ! l * (res ! l ! (?n + j)))" by simp
    moreover have "(\<Sum>l < ?n. augmented m ! i ! l * (res ! l ! (?n + j)))
        = (\<Sum>l < ?n. entry m i l * entry ?p l j)"
      using ep that augmented_rows(3)[OF sq that(1)] by (intro sum.cong) simp_all
    ultimately show ?thesis using augmented_rows(4)[OF sq that] by simp
  qed
  have "length (elems ?p) = ?n * ?n"
    using length_concat_uniform[of res "drop ?n" ?n] ld lres by simp
  then have sp: "square ?p" by (simp add: square_def)
  have 1: "mat_mul ?p m = identity_matrix ?n"
    using EA cm by (subst mat_mul_identity_iff[where n = ?n]) simp_all
  have 2: "mat_mul m ?p = identity_matrix ?n"
    using AE cm by (subst mat_mul_identity_iff[where n = ?n]) simp_all
  from sp 1 2 show ?thesis by (simp add: is_inverse_def)
qed

text \<open>A run that stops at a column without pivot shows that the matrix has no inverse.\<close>

lemma gauss_jordan_singular:
  fixes m :: "'a::field matrix"
  assumes sq: "square m" and g: "gauss_jordan [0..<nrows m] [] (augmented m) = None"
  shows "singular m"
  unfolding singular_def
proof
  let ?n = "nrows m"
  assume "\<exists>q. is_inverse q m"
  then obtain q where q: "is_inverse q m" ..
  from sq have cm: "ncols m = ?n" by (simp add: square_def)
  from q have "nrows q = ?n" "ncols q = ?n" "mat_mul q m = identity_matrix ?n"
    by (simp_all add: is_inverse_def square_def)
  with cm have qm: "\<And>i j. i < ?n \<Longrightarrow> j < ?n \<Longrightarrow>
      (\<Sum>k < ?n. entry q i k * entry m k j) = (if i = j then 1 else 0)"
    using mat_mul_identity_iff[of q ?n m] by simp
  from gj_none[OF g augmented_reduced[OF sq]] obtain x k0 where x: "k0 < ?n" "x k0 = (1::'a)"
    "\<forall>r \<in> set [] \<union> set (augmented m). (\<Sum>j < ?n. r ! j * x j) = 0" by blast
  from x(3) have "\<forall>i < ?n. (\<Sum>j < ?n. augmented m ! i ! j * x j) = 0"
    by (simp add: augmented_set[OF sq])
  moreover have "(\<Sum>j < ?n. augmented m ! i ! j * x j) = (\<Sum>j < ?n. entry m i j * x j)"
    if "i < ?n" for i
    using augmented_rows(3)[OF sq that] by (intro sum.cong) simp_all
  ultimately have null: "\<And>i. i < ?n \<Longrightarrow> (\<Sum>j < ?n. entry m i j * x j) = 0" by simp
  have "x k0 = (\<Sum>j < ?n. (if k0 = j then 1 else 0) * x j)"
    using x(1) by (simp add: sum_unit_row)
  also have "\<dots> = (\<Sum>j < ?n. (\<Sum>k < ?n. entry q k0 k * entry m k j) * x j)"
    using qm[OF x(1)] by (intro sum.cong) simp_all
  also have "\<dots> = (\<Sum>j < ?n. \<Sum>k < ?n. entry q k0 k * (entry m k j * x j))"
    by (simp add: sum_distrib_right mult.assoc)
  also have "\<dots> = (\<Sum>k < ?n. \<Sum>j < ?n. entry q k0 k * (entry m k j * x j))"
    by (rule sum.swap)
  also have "\<dots> = (\<Sum>k < ?n. entry q k0 k * (\<Sum>j < ?n. entry m k j * x j))"
    by (simp add: sum_distrib_left)
  also have "\<dots> = 0" using null by simp
  finally show False using x(2) by simp
qed

text \<open>So Gauss-Jordan elimination meets the contract of the inversion.\<close>

lemma gauss_inv_contract: "inversion_contract (gauss_inv :: 'a::field matrix \<Rightarrow> 'a matrix option)"
  unfolding inversion_contract_def
proof (intro allI impI)
  fix m :: "'a matrix" assume sq: "square m"
  show "case gauss_inv m of None \<Rightarrow> singular m | Some p \<Rightarrow> is_inverse p m"
  proof (cases "gauss_jordan [0..<nrows m] [] (augmented m)")
    case None
    then show ?thesis using sq gauss_jordan_singular[OF sq None] by (simp add: gauss_inv_def)
  next
    case (Some res)
    then show ?thesis using sq gauss_jordan_inverse[OF sq Some] by (simp add: gauss_inv_def)
  qed
qed

section \<open>Properties of the store\<close>

text \<open>
  What \<open>view\<close> reads, reference by reference.
\<close>

lemma lookup_Inr: "lookup cs a = Inr x \<longleftrightarrow> a < length cs \<and> cs ! a = x"
  by (auto simp: lookup_def)

lemma lookup_Inl: "lookup cs a = Inl e \<longleftrightarrow> \<not> a < length cs \<and> e = DanglingRef"
  by (auto simp: lookup_def)

lemma view_SomeD:
  assumes "view h a = Some st"
  shows "a < length (objects h)"
    and "variables (objects h ! a) < length (pylists h)"
    and "mean_vector (objects h ! a) < length (arrays h)"
    and "covariance_matrix (objects h ! a) < length (arrays h)"
    and "vars st = pylists h ! variables (objects h ! a)"
    and "mean st = arrays h ! mean_vector (objects h ! a)"
    and "cov st = arrays h ! covariance_matrix (objects h ! a)"
    and "prec st = map_option (\<lambda>p. arrays h ! p) (cached_precision (objects h ! a))"
    and "\<And>p. cached_precision (objects h ! a) = Some p \<Longrightarrow> p < length (arrays h)"
  using assms by (auto simp: view_def lookup_Inr lookup_Inl split: sum.splits option.splits)

lemma view_SomeI:
  assumes "a < length (objects h)"
    and "variables (objects h ! a) < length (pylists h)"
    and "mean_vector (objects h ! a) < length (arrays h)"
    and "covariance_matrix (objects h ! a) < length (arrays h)"
    and "\<And>p. cached_precision (objects h ! a) = Some p \<Longrightarrow> p < length (arrays h)"
  shows "view h a = Some \<lparr>vars = pylists h ! variables (objects h ! a),
                          mean = arrays h ! mean_vector (objects h ! a),
                          cov = arrays h ! covariance_matrix (objects h ! a),
                          prec = map_option (\<lambda>p. arrays h ! p) (cached_precision (objects h ! a))\<rparr>"
  using assms by (auto simp: view_def lookup_def split: sum.splits option.splits)

lemma jgd_all_updated [simp]:
  "(d::jgd)\<lparr>variables := a, mean_vector := b, covariance_matrix := c, cached_precision := e\<rparr>
     = \<lparr>variables = a, mean_vector = b, covariance_matrix = c, cached_precision = e\<rparr>"
  by (cases d) simp

text \<open>
  The assignments of \<open>marginalize\<close> succeed on a consistent instance when the positions
  are in range, and this is the store they leave.
\<close>

lemma rebind_ok:
  assumes v: "view h a = Some st"
    and c: "consistent st"
    and k: "list_all (\<lambda>i. i < length (vars st)) keep"
  shows "rebind h a keep =
    (Inr (),
     h\<lparr>pylists := pylists h @ [map (\<lambda>i. vars st ! i) keep],
       arrays := arrays h @
         [\<lparr>nrows = length keep, ncols = 1, elems = map (\<lambda>i. elems (mean st) ! i) keep\<rparr>,
          \<lparr>nrows = length keep, ncols = length keep,
           elems = concat (map (\<lambda>i. map (\<lambda>j. entry (cov st) i j) keep) keep)\<rparr>],
       objects := (objects h)[a := \<lparr>variables = length (pylists h),
                                     mean_vector = length (arrays h),
                                     covariance_matrix = Suc (length (arrays h)),
                                     cached_precision = None\<rparr>]\<rparr>)"
proof -
  note d = view_SomeD[OF v]
  have sel: "py_select (pylists h ! variables (objects h ! a)) keep = Inr (map (\<lambda>i. vars st ! i) keep)"
    using k d(5) by (simp add: py_select_def)
  have tr: "take_rows (arrays h ! mean_vector (objects h ! a)) keep =
      Inr \<lparr>nrows = length keep, ncols = 1, elems = map (\<lambda>i. elems (mean st) ! i) keep\<rparr>"
    using take_rows_column[of "mean st" keep] c k d(6) by (simp add: consistent_def mat_shape_def)
  have ix: "ix_select (arrays h ! covariance_matrix (objects h ! a)) keep keep =
      Inr \<lparr>nrows = length keep, ncols = length keep,
           elems = concat (map (\<lambda>i. map (\<lambda>j. entry (cov st) i j) keep) keep)\<rparr>"
    using c k d(7) by (simp add: ix_select_def consistent_def mat_shape_def)
  show ?thesis
    unfolding rebind_def
    using d(1-4) sel tr ix
    by (simp add: lookup_def Let_def nth_append)
qed

lemmas np_defs =
  np_shape_def np_data_def np_size_def py_len_def np_reshape_def np_matrix_def
  array_finalize_def set_shape_def

text \<open>
  Frame properties. Each method only adds lists and arrays to the store and changes no
  instance but the one it works on; the cache of an instance is kept, cleared, or set
  to the inverse of its covariance matrix.
\<close>

lemma grows_refl [simp]: "grows h h"
  by (simp add: grows_def)

lemma grows_trans: "grows h h1 \<Longrightarrow> grows h1 h2 \<Longrightarrow> grows h h2"
  by (auto simp: grows_def)

lemma prefix_nth: "prefix xs ys \<Longrightarrow> i < length xs \<Longrightarrow> ys ! i = xs ! i"
  by (auto simp: prefix_def nth_append)

lemma prefix_length: "prefix xs ys \<Longrightarrow> i < length xs \<Longrightarrow> i < length ys"
  by (auto simp: prefix_def)

lemma cache_ok_step:
  assumes "cache_ok linalg_inv h" "prefix (arrays h) (arrays h')" "keeps_cache linalg_inv h h'"
  shows "cache_ok linalg_inv h'"
  unfolding cache_ok_def list_all_length
proof (intro allI impI)
  fix b assume b: "b < length (objects h')"
  show "case cached_precision (objects h' ! b) of None \<Rightarrow> True
        | Some p \<Rightarrow> p < length (arrays h') \<and> covariance_matrix (objects h' ! b) < length (arrays h') \<and>
            linalg_inv (arrays h' ! covariance_matrix (objects h' ! b)) = Some (arrays h' ! p)"
  proof (cases "cached_precision (objects h' ! b)")
    case None
    then show ?thesis by simp
  next
    case (Some p)
    from assms(3) b Some consider
      (old) b0 where "b0 < length (objects h)" "cached_precision (objects h ! b0) = Some p"
        "covariance_matrix (objects h' ! b) = covariance_matrix (objects h ! b0) \<or>
         covariance_matrix (objects h' ! b) < length (arrays h') \<and>
         arrays h' ! covariance_matrix (objects h' ! b) = arrays h ! covariance_matrix (objects h ! b0)"
      | (new) "p < length (arrays h')" "covariance_matrix (objects h' ! b) < length (arrays h')"
        "linalg_inv (arrays h' ! covariance_matrix (objects h' ! b)) = Some (arrays h' ! p)"
      unfolding keeps_cache_def by blast
    then show ?thesis
    proof cases
      case old
      with assms(1) have o: "p < length (arrays h)" "covariance_matrix (objects h ! b0) < length (arrays h)"
        "linalg_inv (arrays h ! covariance_matrix (objects h ! b0)) = Some (arrays h ! p)"
        unfolding cache_ok_def list_all_length by (auto split: option.splits)
      from old(3) show ?thesis
      proof
        assume "covariance_matrix (objects h' ! b) = covariance_matrix (objects h ! b0)"
        with o Some assms(2) show ?thesis
          by (simp add: prefix_nth prefix_length)
      next
        assume "covariance_matrix (objects h' ! b) < length (arrays h') \<and>
           arrays h' ! covariance_matrix (objects h' ! b) = arrays h ! covariance_matrix (objects h ! b0)"
        with o Some assms(2) show ?thesis
          by (simp add: prefix_nth prefix_length)
      qed
    next
      case new
      with Some show ?thesis by simp
    qed
  qed
qed

lemma init_effect:
  assumes "init h v m c = (r, h')"
  shows "grows h h'" and "pylists h' = pylists h"
    and "\<And>b. b < length (objects h) \<Longrightarrow> objects h' ! b = objects h ! b"
    and "keeps_cache linalg_inv h h'"
  using assms
  by (auto simp: lookup_Inr lookup_Inl init_def grows_def keeps_cache_def nth_append
      split: sum.splits if_splits)

lemma precision_matrix_effect:
  assumes "precision_matrix linalg_inv h a = (r, h')"
  shows "grows h h'" and "pylists h' = pylists h" and "length (objects h') = length (objects h)"
    and "\<And>b. b \<noteq> a \<Longrightarrow> objects h' ! b = objects h ! b"
    and "keeps_cache linalg_inv h h'"
    and "covariance_matrix (objects h' ! a) = covariance_matrix (objects h ! a)"
  using assms
  by (auto simp: lookup_Inr lookup_Inl precision_matrix_def grows_def keeps_cache_def nth_append nth_list_update
      split: sum.splits if_splits option.splits)

lemma rebind_effect:
  assumes "rebind h a keep = (r, h')"
  shows "grows h h'" and "length (objects h') = length (objects h)"
    and "\<And>b. b \<noteq> a \<Longrightarrow> objects h' ! b = objects h ! b"
    and "keeps_cache linalg_inv h h'"
    and "covariance_matrix (objects h' ! a) \<noteq> covariance_matrix (objects h ! a) \<Longrightarrow>
           cached_precision (objects h' ! a) = None"
  using assms
  by (auto simp: lookup_Inr lookup_Inl rebind_def grows_def keeps_cache_def nth_append nth_list_update Let_def
      split: sum.splits if_splits option.splits)

lemma np_matrix_NpMatrix [simp]: "np_matrix (NpMatrix m) = Inr m"
  by (simp add: np_matrix_def)

lemma copy_effect:
  assumes "copy h a = (r, h')"
  shows "grows h h'" and "pylists h' = pylists h"
    and "\<And>b. b < length (objects h) \<Longrightarrow> objects h' ! b = objects h ! b"
    and "keeps_cache linalg_inv h h'"
  using assms
  by (auto simp: lookup_Inr lookup_Inl copy_def init_def grows_def keeps_cache_def nth_append nth_list_update
      split: sum.splits if_splits option.splits prod.splits)

lemma marginalize_body_effect:
  assumes "marginalize_body h s a rs = (r, h')"
  shows "grows h h'" and "length (objects h') = length (objects h)"
    and "\<And>b. b \<noteq> a \<Longrightarrow> objects h' ! b = objects h ! b"
    and "keeps_cache linalg_inv h h'"
    and "covariance_matrix (objects h' ! a) \<noteq> covariance_matrix (objects h ! a) \<Longrightarrow>
           cached_precision (objects h' ! a) = None"
proof -
  from assms consider (same) "h' = h" | (rb) keep where "rebind h a keep = (r, h')"
    by (auto simp: marginalize_body_def split: sum.splits)
  then have "grows h h' \<and> length (objects h') = length (objects h) \<and>
     (\<forall>b. b \<noteq> a \<longrightarrow> objects h' ! b = objects h ! b) \<and> keeps_cache linalg_inv h h' \<and>
     (covariance_matrix (objects h' ! a) \<noteq> covariance_matrix (objects h ! a) \<longrightarrow>
           cached_precision (objects h' ! a) = None)"
  proof cases
    case same
    then show ?thesis by (auto simp: keeps_cache_def)
  next
    case rb
    show ?thesis using rebind_effect[OF rb] by blast
  qed
  then show "grows h h'" and "length (objects h') = length (objects h)"
    and "\<And>b. b \<noteq> a \<Longrightarrow> objects h' ! b = objects h ! b"
    and "keeps_cache linalg_inv h h'"
    and "covariance_matrix (objects h' ! a) \<noteq> covariance_matrix (objects h ! a) \<Longrightarrow>
           cached_precision (objects h' ! a) = None"
    by blast+
qed

text \<open>
  The paths through \<open>marginalize\<close>, and the cache invariant along every step.
\<close>

lemma copy_new:
  assumes "copy h a = (Inr c, h')"
  shows "c = length (objects h)" and "length (objects h') = Suc (length (objects h))"
  using assms
  by (auto simp: lookup_Inr lookup_Inl copy_def init_def split: sum.splits if_splits prod.splits)

lemma marginalize_cases:
  assumes "marginalize h a arg inplace = (r, h')"
  obtains (untouched) "h' = h"
  | (in_place) rs r' where "inplace" "arg = PySeq rs" "marginalize_body h a a rs = (r', h')"
  | (copy_failed) e where "\<not> inplace" "copy h a = (Inl e, h')"
  | (on_copy) rs c h1 r' where "\<not> inplace" "arg = PySeq rs" "copy h a = (Inr c, h1)"
      "marginalize_body h1 a c rs = (r', h')"
  using assms
  by (auto simp: marginalize_def split: py_arg.splits sum.splits if_splits prod.splits)

lemma marginalize_cache_ok:
  assumes ok: "cache_ok linalg_inv h" and m: "marginalize h a arg inplace = (r, h')"
  shows "cache_ok linalg_inv h'"
  using m
proof (cases rule: marginalize_cases)
  case untouched
  then show ?thesis using ok by simp
next
  case (in_place rs r')
  from marginalize_body_effect(1,4)[OF in_place(3)] ok show ?thesis
    by (auto intro: cache_ok_step simp: grows_def)
next
  case (copy_failed e)
  from copy_effect(1,4)[OF copy_failed(2)] ok show ?thesis
    by (auto intro: cache_ok_step simp: grows_def)
next
  case (on_copy rs c h1 r')
  from copy_effect(1,4)[OF on_copy(3)] ok have "cache_ok linalg_inv h1"
    by (auto intro: cache_ok_step simp: grows_def)
  with marginalize_body_effect(1,4)[OF on_copy(4)] show ?thesis
    by (auto intro: cache_ok_step simp: grows_def)
qed

lemma marginalize_clears:
  assumes m: "marginalize h a arg inplace = (r, h')" and b: "b < length (objects h)"
    and ch: "covariance_matrix (objects h' ! b) \<noteq> covariance_matrix (objects h ! b)"
  shows "cached_precision (objects h' ! b) = None"
  using m
proof (cases rule: marginalize_cases)
  case untouched
  then show ?thesis using ch by simp
next
  case (in_place rs r')
  show ?thesis
    using marginalize_body_effect(3,5)[OF in_place(3)] ch by (cases "b = a") auto
next
  case (copy_failed e)
  then show ?thesis using copy_effect(3)[OF copy_failed(2) b] ch by simp
next
  case (on_copy rs c h1 r')
  have "c = length (objects h)" using copy_new[OF on_copy(3)] by simp
  then have "b \<noteq> c" using b by simp
  then have "objects h' ! b = objects h1 ! b"
    using marginalize_body_effect(3)[OF on_copy(4)] by simp
  also have "\<dots> = objects h ! b" using copy_effect(3)[OF on_copy(3) b] .
  finally show ?thesis using ch by simp
qed

lemma step_cache_ok:
  assumes "step linalg_inv h h'" "cache_ok linalg_inv h"
  shows "cache_ok linalg_inv h'"
  using assms
proof (cases rule: step.cases)
  case (construction variables_ref mean_arg cov_arg r)
  from init_effect(1,4)[OF this] assms(2) show ?thesis
    by (auto intro: cache_ok_step simp: grows_def)
next
  case (precision_access self r)
  from precision_matrix_effect(1,5)[OF this] assms(2) show ?thesis
    by (auto intro: cache_ok_step simp: grows_def)
next
  case (marginalization self variables_arg inplace r)
  then show ?thesis using marginalize_cache_ok assms(2) by blast
next
  case (copying self r)
  from copy_effect(1,4)[OF this] assms(2) show ?thesis
    by (auto intro: cache_ok_step simp: grows_def)
qed

lemma step_clears:
  assumes "step linalg_inv h h'" "b < length (objects h)"
    "covariance_matrix (objects h' ! b) \<noteq> covariance_matrix (objects h ! b)"
  shows "cached_precision (objects h' ! b) = None"
  using assms
proof (cases rule: step.cases)
  case (construction variables_ref mean_arg cov_arg r)
  then show ?thesis using init_effect(3)[OF construction assms(2)] assms(3) by simp
next
  case (precision_access self r)
  then show ?thesis
    using precision_matrix_effect(4,6)[OF precision_access] assms(3) by (cases "b = self") auto
next
  case (marginalization self variables_arg inplace r)
  then show ?thesis using marginalize_clears assms(2,3) by blast
next
  case (copying self r)
  then show ?thesis using copy_effect(3)[OF copying assms(2)] assms(3) by simp
qed

lemma reachable_cache_ok: "reachable linalg_inv h \<Longrightarrow> cache_ok linalg_inv h"
proof (induction rule: reachable.induct)
  case (initial h)
  then show ?case by (simp add: cache_ok_def)
next
  case (caller_list h vs)
  then show ?case by (auto simp: cache_ok_def list_all_length split: option.splits)
next
  case (operation h h')
  then show ?case using step_cache_ok by blast
qed

text \<open>
  The value of an instance is not affected by what is added to the store.
\<close>

lemma view_frame:
  assumes v: "view h b = Some st" and g: "grows h h'" and o: "objects h' ! b = objects h ! b"
  shows "view h' b = Some st"
proof -
  note d = view_SomeD[OF v]
  from g have p: "prefix (pylists h) (pylists h')" "prefix (arrays h) (arrays h')"
    and l: "length (objects h) \<le> length (objects h')"
    by (simp_all add: grows_def)
  have "view h' b = Some \<lparr>vars = pylists h' ! variables (objects h' ! b),
                          mean = arrays h' ! mean_vector (objects h' ! b),
                          cov = arrays h' ! covariance_matrix (objects h' ! b),
                          prec = map_option (\<lambda>p. arrays h' ! p) (cached_precision (objects h' ! b))\<rparr>"
    using d(1-4) d(9) l o p by (intro view_SomeI) (auto simp: prefix_length)
  also have "\<dots> = Some st"
    using d o p by (cases "cached_precision (objects h ! b)") (auto simp: prefix_nth)
  finally show ?thesis .
qed

text \<open>
  Successful runs of the constructor, of \<open>copy\<close> and of \<open>marginalize\<close>.
\<close>

lemma mean_column:
  assumes "np_size x = n"
  shows "\<exists>r. np_reshape x [n, 1] = Inr r \<and>
             np_matrix r = Inr \<lparr>nrows = n, ncols = 1, elems = np_data x\<rparr>"
  using assms
  by (cases x) (auto simp: np_reshape_def np_size_def np_data_def np_matrix_def array_finalize_def)

lemma init_ok:
  assumes "variables_ref < length (pylists h)"
    and "py_len mean_arg = Inr (length (pylists h ! variables_ref))"
    and "np_size mean_arg = length (pylists h ! variables_ref)"
    and "np_matrix cov_arg = Inr cm"
    and "mat_shape cm = (length (pylists h ! variables_ref), length (pylists h ! variables_ref))"
  shows "init h variables_ref mean_arg cov_arg =
    (Inr (length (objects h)),
     h\<lparr>arrays := arrays h @
          [\<lparr>nrows = length (pylists h ! variables_ref), ncols = 1, elems = np_data mean_arg\<rparr>, cm],
       objects := objects h @
          [\<lparr>variables = variables_ref, mean_vector = length (arrays h),
            covariance_matrix = Suc (length (arrays h)), cached_precision = None\<rparr>]\<rparr>)"
proof -
  from mean_column[OF assms(3)] obtain r where
    "np_reshape mean_arg [length (pylists h ! variables_ref), 1] = Inr r"
    "np_matrix r =
       Inr \<lparr>nrows = length (pylists h ! variables_ref), ncols = 1, elems = np_data mean_arg\<rparr>"
    by blast
  with assms show ?thesis by (simp add: init_def lookup_def)
qed

lemma copy_ok:
  assumes v: "view h a = Some st" and c: "consistent st"
  shows "copy h a =
    (Inr (length (objects h)),
     h\<lparr>arrays := arrays h @ [mean st, cov st],
       objects := objects h @
          [\<lparr>variables = variables (objects h ! a), mean_vector = length (arrays h),
            covariance_matrix = Suc (length (arrays h)),
            cached_precision = cached_precision (objects h ! a)\<rparr>]\<rparr>)"
proof -
  note d = view_SomeD[OF v]
  let ?n = "length (pylists h ! variables (objects h ! a))"
  have n: "length (vars st) = ?n" using d(5) by simp
  have m: "\<lparr>nrows = ?n, ncols = 1, elems = np_data (NpMatrix (mean st))\<rparr> = mean st"
    using c n by (simp add: consistent_def mat_shape_def np_data_def)
  have 1: "py_len (NpMatrix (mean st)) = Inr ?n"
    using c n by (simp add: consistent_def mat_shape_def np_shape_def py_len_def)
  have 2: "np_size (NpMatrix (mean st)) = ?n"
    using c n by (simp add: consistent_def np_size_def np_data_def)
  have 3: "mat_shape (cov st) = (?n, ?n)"
    using c n by (simp add: consistent_def)
  have "init h (variables (objects h ! a)) (NpMatrix (mean st)) (NpMatrix (cov st)) =
    (Inr (length (objects h)),
     h\<lparr>arrays := arrays h @ [mean st, cov st],
       objects := objects h @
          [\<lparr>variables = variables (objects h ! a), mean_vector = length (arrays h),
            covariance_matrix = Suc (length (arrays h)), cached_precision = None\<rparr>]\<rparr>)"
    using init_ok[OF d(2) 1 2 np_matrix_NpMatrix 3] by (simp only: m)
  then show ?thesis
    using d(1,3,4,6,7) by (simp add: copy_def lookup_def)
qed

lemma kept_in_range: "list_all (\<lambda>i. i < length vs) (kept vs rs)"
  by (simp add: kept_def list_all_iff)

lemma marginalize_body_ok:
  assumes s: "view h s = Some st_s" and v: "view h a = Some st"
    and n: "length (vars st_s) = length (vars st)"
    and dis: "distinct (vars st)" and sub: "set rs \<subseteq> set (vars st)"
  shows "marginalize_body h s a rs = rebind h a (kept (vars st) rs)"
proof -
  note ds = view_SomeD[OF s] and d = view_SomeD[OF v]
  from var_indexes_ok[OF sub] obtain idxs where i: "var_indexes (vars st) rs = Inr idxs" by blast
  have "index_to_keep (length (vars st_s)) idxs = kept (vars st) rs"
    using index_to_keep_kept[OF dis i] n by simp
  then show ?thesis
    using ds(1,2,5) d(1,2,5) i by (simp add: marginalize_body_def lookup_def)
qed

lemma rebind_view:
  assumes v: "view h a = Some st" and c: "consistent st"
    and r: "rebind h a (kept (vars st) rs) = (res, h')"
  shows "res = Inr ()" and "view h' a = Some (marginal st rs)"
proof -
  note d = view_SomeD[OF v]
  note ok = rebind_ok[OF v c kept_in_range[of "vars st" rs]]
  from ok r show "res = Inr ()" by simp
  have vs: "map (\<lambda>i. vars st ! i) (kept (vars st) rs) = filter (\<lambda>v. v \<notin> set rs) (vars st)"
    unfolding kept_def by (rule map_nth_filter)
  from ok r have h': "h' = h\<lparr>pylists := pylists h @ [map (\<lambda>i. vars st ! i) (kept (vars st) rs)],
       arrays := arrays h @
         [\<lparr>nrows = length (kept (vars st) rs), ncols = 1,
           elems = map (\<lambda>i. elems (mean st) ! i) (kept (vars st) rs)\<rparr>,
          \<lparr>nrows = length (kept (vars st) rs), ncols = length (kept (vars st) rs),
           elems = concat (map (\<lambda>i. map (\<lambda>j. entry (cov st) i j) (kept (vars st) rs))
              (kept (vars st) rs))\<rparr>],
       objects := (objects h)[a := \<lparr>variables = length (pylists h),
                                     mean_vector = length (arrays h),
                                     covariance_matrix = Suc (length (arrays h)),
                                     cached_precision = None\<rparr>]\<rparr>"
    by simp
  show "view h' a = Some (marginal st rs)"
    unfolding h' using d(1) vs
    by (simp add: view_def lookup_def marginal_def nth_append)
qed

section \<open>Properties of the methods\<close>

text \<open>
  \<open>marginalize\<close> depends on the removal list through the set of its elements only.
\<close>

lemma marginalize_body_set_cong:
  assumes "set rs = set rs'"
  shows "marginalize_body h s a rs = marginalize_body h s a rs'"
proof (cases "lookup (objects h) a")
  case (Inl e)
  then show ?thesis by (simp add: marginalize_body_def)
next
  case (Inr d)
  show ?thesis
  proof (cases "lookup (pylists h) (variables d)")
    case (Inl e)
    then show ?thesis using Inr by (simp add: marginalize_body_def)
  next
    case dvs: (Inr dvs)
    show ?thesis
    proof (cases "var_indexes dvs rs")
      case (Inl e)
      then have "\<not> set rs \<subseteq> set dvs" "e = ValueError" using var_indexes_Inl by blast+
      then have "var_indexes dvs rs' = Inl ValueError"
        using assms var_indexes_Inl var_indexes_Inr by (cases "var_indexes dvs rs'") fastforce+
      then show ?thesis using Inl Inr dvs \<open>e = ValueError\<close>
        by (simp add: marginalize_body_def)
    next
      case idxs: (Inr idxs)
      then have sub: "set rs' \<subseteq> set dvs" using var_indexes_Inr assms by blast
      from var_indexes_ok[OF sub] obtain idxs' where i': "var_indexes dvs rs' = Inr idxs'" by blast
      have "set idxs = set idxs'"
        using var_indexes_Inr[OF idxs] var_indexes_Inr[OF i'] assms by simp
      then have "index_to_keep n idxs = index_to_keep n idxs'" for n
        by (simp add: index_to_keep_filter)
      then show ?thesis using Inr dvs idxs i'
        by (simp add: marginalize_body_def cong: sum.case_cong)
    qed
  qed
qed

lemma marginalize_set_cong:
  assumes "set rs = set rs'"
  shows "marginalize h self (PySeq rs) inplace = marginalize h self (PySeq rs') inplace"
  by (simp add: marginalize_def marginalize_body_set_cong[OF assms] cong: prod.case_cong sum.case_cong)

lemma marginalize_body_unknown:
  assumes v: "view h a = Some st" and sub: "\<not> set rs \<subseteq> set (vars st)"
  shows "marginalize_body h s a rs = (Inl ValueError, h)"
proof -
  note d = view_SomeD[OF v]
  have "var_indexes (vars st) rs = Inl ValueError"
    using sub var_indexes_Inl var_indexes_Inr by (cases "var_indexes (vars st) rs") fastforce+
  then show ?thesis using d(1,2,5) by (simp add: marginalize_body_def lookup_def)
qed

lemma copy_view:
  assumes v: "view h a = Some st" and c: "consistent st" and cp: "copy h a = (r, h')"
  shows "r = Inr (length (objects h))" and "view h' (length (objects h)) = Some st"
    and "view h' a = Some st" and "objects h' ! a = objects h ! a"
    and "mean_vector (objects h' ! length (objects h)) = length (arrays h)"
    and "covariance_matrix (objects h' ! length (objects h)) = Suc (length (arrays h))"
    and "variables (objects h' ! length (objects h)) = variables (objects h ! a)"
    and "cached_precision (objects h' ! length (objects h)) = cached_precision (objects h ! a)"
proof -
  note d = view_SomeD[OF v]
  note ok = copy_ok[OF v c]
  from ok cp show "r = Inr (length (objects h))" by simp
  from ok cp have h': "h' = h\<lparr>arrays := arrays h @ [mean st, cov st],
       objects := objects h @
          [\<lparr>variables = variables (objects h ! a), mean_vector = length (arrays h),
            covariance_matrix = Suc (length (arrays h)),
            cached_precision = cached_precision (objects h ! a)\<rparr>]\<rparr>" by simp
  show "objects h' ! a = objects h ! a" using d(1) by (simp add: h' nth_append)
  then show "view h' a = Some st"
    using v copy_effect(1)[OF cp] by (intro view_frame[OF v]) auto
  show "view h' (length (objects h)) = Some st"
    unfolding h' using d
    by (cases "cached_precision (objects h ! a)") (auto simp: view_def lookup_def nth_append)
  show "mean_vector (objects h' ! length (objects h)) = length (arrays h)"
    and "covariance_matrix (objects h' ! length (objects h)) = Suc (length (arrays h))"
    and "variables (objects h' ! length (objects h)) = variables (objects h ! a)"
    and "cached_precision (objects h' ! length (objects h)) = cached_precision (objects h ! a)"
    by (simp_all add: h')
qed

text \<open>
  The entries of the marginal, and its two extreme cases.
\<close>

lemma marginal_entries:
  assumes "a < length (kept (vars st) rs)"
  shows "vars (marginal st rs) ! a = vars st ! (kept (vars st) rs ! a)"
    and "elems (mean (marginal st rs)) ! a = elems (mean st) ! (kept (vars st) rs ! a)"
    and "b < length (kept (vars st) rs) \<Longrightarrow>
         entry (cov (marginal st rs)) a b =
         entry (cov st) (kept (vars st) rs ! a) (kept (vars st) rs ! b)"
proof -
  have "filter (\<lambda>v. v \<notin> set rs) (vars st) = map (\<lambda>i. vars st ! i) (kept (vars st) rs)"
    unfolding kept_def by (rule map_nth_filter[symmetric])
  then show "vars (marginal st rs) ! a = vars st ! (kept (vars st) rs ! a)"
    using assms by (simp add: marginal_def)
  show "elems (mean (marginal st rs)) ! a = elems (mean st) ! (kept (vars st) rs ! a)"
    using assms by (simp add: marginal_def)
  show "entry (cov (marginal st rs)) a b =
         entry (cov st) (kept (vars st) rs ! a) (kept (vars st) rs ! b)"
    if "b < length (kept (vars st) rs)"
    using nth_concat_uniform[of a "kept (vars st) rs" b "length (kept (vars st) rs)"
        "\<lambda>i. map (\<lambda>j. entry (cov st) i j) (kept (vars st) rs)"] assms that
    by (simp add: marginal_def entry_def[of "\<lparr>nrows = _, ncols = _, elems = _\<rparr>"])
qed

lemma marginal_noop:
  assumes "consistent st"
  shows "marginal st [] = st\<lparr>prec := None\<rparr>"
proof -
  let ?n = "length (vars st)"
  have k: "kept (vars st) [] = [0..<?n]" by (simp add: kept_def)
  have m: "\<lparr>nrows = ?n, ncols = 1, elems = map (\<lambda>i. elems (mean st) ! i) [0..<?n]\<rparr> = mean st"
    using assms map_nth[of "elems (mean st)"] by (simp add: consistent_def mat_shape_def)
  have "concat (map (\<lambda>i. map (\<lambda>j. elems (cov st) ! (i * ?n + j)) [0..<?n]) [0..<?n]) = elems (cov st)"
    using assms by (intro concat_rows_all) (simp add: consistent_def)
  then have c: "\<lparr>nrows = ?n, ncols = ?n,
      elems = concat (map (\<lambda>i. map (\<lambda>j. entry (cov st) i j) [0..<?n]) [0..<?n])\<rparr> = cov st"
    using assms by (simp add: consistent_def mat_shape_def entry_def)
  show ?thesis
    using m[simplified] by (simp add: marginal_def k c)
qed

lemma marginal_all:
  assumes "set (vars st) \<subseteq> set rs"
  shows "marginal st rs =
     \<lparr>vars = [], mean = \<lparr>nrows = 0, ncols = 1, elems = []\<rparr>,
      cov = \<lparr>nrows = 0, ncols = 0, elems = []\<rparr>, prec = None\<rparr>"
proof -
  have "kept (vars st) rs = []"
    using assms by (auto simp: kept_def filter_empty_conv)
  moreover have "filter (\<lambda>v. v \<notin> set rs) (vars st) = []"
    using assms by (auto simp: filter_empty_conv)
  ultimately show ?thesis by (simp add: marginal_def)
qed

lemma marginalize_inplace_ok:
  assumes v: "view h self = Some st" and c: "consistent st"
    and dis: "distinct (vars st)" and sub: "set rs \<subseteq> set (vars st)"
  shows "\<exists>h'. marginalize h self (PySeq rs) True = (Inr None, h') \<and>
              view h' self = Some (marginal st rs)"
proof -
  obtain res h' where r: "rebind h self (kept (vars st) rs) = (res, h')"
    by (cases "rebind h self (kept (vars st) rs)")
  note rv = rebind_view[OF v c r]
  have "marginalize_body h self self rs = (Inr (), h')"
    using marginalize_body_ok[OF v v _ dis sub] r rv(1) by simp
  then show ?thesis using rv(2) by (simp add: marginalize_def)
qed

lemma marginalize_copy_ok:
  assumes v: "view h self = Some st" and c: "consistent st"
    and dis: "distinct (vars st)" and sub: "set rs \<subseteq> set (vars st)"
  shows "\<exists>h'. marginalize h self (PySeq rs) False = (Inr (Some (length (objects h))), h') \<and>
              view h' self = Some st \<and> objects h' ! self = objects h ! self \<and>
              view h' (length (objects h)) = Some (marginal st rs) \<and>
              objects h' ! length (objects h) =
                \<lparr>variables = length (pylists h), mean_vector = Suc (Suc (length (arrays h))),
                 covariance_matrix = Suc (Suc (Suc (length (arrays h)))),
                 cached_precision = None\<rparr>"
proof -
  let ?c = "length (objects h)"
  obtain r h1 where cp: "copy h self = (r, h1)" by (cases "copy h self")
  note cv = copy_view[OF v c cp]
  note d = view_SomeD[OF v]
  have ne: "self \<noteq> ?c" using d(1) by simp
  obtain res h' where r: "rebind h1 ?c (kept (vars st) rs) = (res, h')"
    by (cases "rebind h1 ?c (kept (vars st) rs)")
  note rv = rebind_view[OF cv(2) c r]
  note re = rebind_effect[OF r]
  have body: "marginalize_body h1 self ?c rs = (Inr (), h')"
    using marginalize_body_ok[OF cv(3) cv(2) _ dis sub] r rv(1) by simp
  have o: "objects h' ! self = objects h1 ! self" using re(3) ne by simp
  have vs: "view h' self = Some st"
    using view_frame[OF cv(3) re(1) o] .
  have l1: "pylists h1 = pylists h" "length (arrays h1) = Suc (Suc (length (arrays h)))"
    using copy_ok[OF v c] cp by auto
  have new: "objects h' ! ?c = \<lparr>variables = length (pylists h),
      mean_vector = Suc (Suc (length (arrays h))),
      covariance_matrix = Suc (Suc (Suc (length (arrays h)))), cached_precision = None\<rparr>"
    using rebind_ok[OF cv(2) c kept_in_range[of "vars st" rs]] r l1 copy_new(2)[of h self ?c h1]
      cp cv(1)
    by auto
  show ?thesis
    using cp cv(1) body vs o cv(4) rv(2) new by (simp add: marginalize_def)
qed

lemma np_matrix_error: "np_matrix a = Inl e \<Longrightarrow> e = ValueError"
  by (auto simp: np_matrix_def array_finalize_def set_shape_def
      split: array_like.splits list.splits if_splits)

text \<open>
  The two paths of \<open>precision_matrix\<close>: the cache is set, or the inversion is called.
\<close>

lemma precision_matrix_cached:
  assumes "lookup (objects h) self = Inr d" "cached_precision d = Some p"
  shows "precision_matrix linalg_inv h self = (Inr p, h)"
  using assms by (simp add: precision_matrix_def)

lemma precision_matrix_computes:
  assumes v: "view h self = Some st" and n: "prec st = None"
    and i: "linalg_inv (cov st) = Some pm"
  shows "precision_matrix linalg_inv h self =
     (Inr (length (arrays h)),
      h\<lparr>arrays := arrays h @ [pm],
        objects := (objects h)[self := (objects h ! self)\<lparr>cached_precision := Some (length (arrays h))\<rparr>]\<rparr>)"
proof -
  note d = view_SomeD[OF v]
  from d(8) n have "cached_precision (objects h ! self) = None" by simp
  then show ?thesis using d(1,4,7) i
    by (simp add: precision_matrix_def lookup_def)
qed

lemma precision_matrix_fails:
  assumes v: "view h self = Some st" and n: "prec st = None"
    and i: "linalg_inv (cov st) = None"
  shows "precision_matrix linalg_inv h self = (Inl LinAlgError, h)"
proof -
  note d = view_SomeD[OF v]
  from d(8) n have "cached_precision (objects h ! self) = None" by simp
  then show ?thesis using d(1,4,7) i
    by (simp add: precision_matrix_def lookup_def)
qed

lemma precision_matrix_view:
  assumes v: "view h self = Some st" and n: "prec st = None"
    and i: "linalg_inv (cov st) = Some pm"
    and r: "precision_matrix linalg_inv h self = (res, h')"
  shows "res = Inr (length (arrays h))" and "lookup (arrays h') (length (arrays h)) = Inr pm"
    and "view h' self = Some (st\<lparr>prec := Some pm\<rparr>)"
    and "precision_matrix linalg_inv h' self = (Inr (length (arrays h)), h')"
proof -
  note d = view_SomeD[OF v]
  note c = precision_matrix_computes[where linalg_inv = linalg_inv, OF v n i]
  from c r show "res = Inr (length (arrays h))" by simp
  from c r have h': "h' = h\<lparr>arrays := arrays h @ [pm],
        objects := (objects h)[self := (objects h ! self)\<lparr>cached_precision := Some (length (arrays h))\<rparr>]\<rparr>"
    by simp
  show "lookup (arrays h') (length (arrays h)) = Inr pm"
    by (simp add: h' lookup_def)
  show "view h' self = Some (st\<lparr>prec := Some pm\<rparr>)"
    using d(1-7) by (simp add: h' view_def lookup_def nth_append)
  show "precision_matrix linalg_inv h' self = (Inr (length (arrays h)), h')"
    using d(1) by (intro precision_matrix_cached[where d="objects h' ! self"])
      (simp_all add: h' lookup_def)
qed

lemma cache_ok_view:
  assumes "cache_ok linalg_inv h" "view h a = Some st" "prec st = Some pm"
  shows "linalg_inv (cov st) = Some pm"
proof -
  note d = view_SomeD[OF assms(2)]
  from d(8) assms(3) obtain p where p: "cached_precision (objects h ! a) = Some p"
    "pm = arrays h ! p" by (cases "cached_precision (objects h ! a)") auto
  from assms(1) d(1) p(1)
  have "linalg_inv (arrays h ! covariance_matrix (objects h ! a)) = Some (arrays h ! p)"
    unfolding cache_ok_def list_all_length by (auto split: option.splits)
  then show ?thesis using d(7) p(2) by simp
qed

text \<open>
  On a reachable store the access does what the inversion does on the covariance matrix:
  a set cache holds what the inversion returns, so the access raises exactly when the
  inversion does.
\<close>

lemma precision_matrix_follows_inversion:
  assumes "reachable linalg_inv h" and "view h self = Some st"
  shows "(linalg_inv (cov st) = None \<longrightarrow>
            precision_matrix linalg_inv h self = (Inl LinAlgError, h)) \<and>
         (\<forall>pm. linalg_inv (cov st) = Some pm \<longrightarrow>
            (\<exists>p h'. precision_matrix linalg_inv h self = (Inr p, h') \<and>
                    lookup (arrays h') p = Inr pm))"
proof -
  have ok: "cache_ok linalg_inv h" using assms(1) by (rule reachable_cache_ok)
  note d = view_SomeD[OF assms(2)]
  have 1: "precision_matrix linalg_inv h self = (Inl LinAlgError, h)"
    if n: "linalg_inv (cov st) = None"
  proof -
    have "prec st = None"
    proof (cases "prec st")
      case None
      then show ?thesis .
    next
      case (Some pm)
      then show ?thesis using cache_ok_view[OF ok assms(2) Some] n by simp
    qed
    then show ?thesis
      using precision_matrix_fails[where linalg_inv = linalg_inv, OF assms(2) _ n] by simp
  qed
  have 2: "\<exists>p h'. precision_matrix linalg_inv h self = (Inr p, h') \<and> lookup (arrays h') p = Inr pm"
    if i: "linalg_inv (cov st) = Some pm" for pm
  proof (cases "prec st")
    case None
    obtain res h' where r: "precision_matrix linalg_inv h self = (res, h')"
      by (cases "precision_matrix linalg_inv h self")
    note pv = precision_matrix_view[where linalg_inv = linalg_inv, OF assms(2) None i r]
    show ?thesis using r pv(1,2) by auto
  next
    case (Some pm')
    then have "pm' = pm" using cache_ok_view[OF ok assms(2) Some] i by simp
    from d(8) Some obtain p where p: "cached_precision (objects h ! self) = Some p"
      "pm' = arrays h ! p" by (cases "cached_precision (objects h ! self)") auto
    have "precision_matrix linalg_inv h self = (Inr p, h)"
      using d(1) p(1) by (simp add: precision_matrix_def lookup_def)
    moreover have "lookup (arrays h) p = Inr pm"
      using d(9)[OF p(1)] p(2) \<open>pm' = pm\<close> by (simp add: lookup_def)
    ultimately show ?thesis by blast
  qed
  from 1 2 show ?thesis by blast
qed

text \<open>
  A call on one instance leaves the value of every other instance as it was.
\<close>

lemma marginalize_frame:
  assumes m: "marginalize h a arg inplace = (r, h')"
  shows "grows h h'"
    and "\<And>b. b \<noteq> a \<Longrightarrow> b < length (objects h) \<Longrightarrow> objects h' ! b = objects h ! b"
proof -
  have "grows h h' \<and> (\<forall>b. b \<noteq> a \<longrightarrow> b < length (objects h) \<longrightarrow> objects h' ! b = objects h ! b)"
    using m
  proof (cases rule: marginalize_cases)
    case untouched
    then show ?thesis by simp
  next
    case (in_place rs r')
    then show ?thesis using marginalize_body_effect(1,3)[OF in_place(3)] by simp
  next
    case (copy_failed e)
    then show ?thesis using copy_effect(1,3)[OF copy_failed(2)] by simp
  next
    case (on_copy rs c h1 r')
    have c: "c = length (objects h)" using copy_new(1)[OF on_copy(3)] .
    have "grows h h'"
      using copy_effect(1)[OF on_copy(3)] marginalize_body_effect(1)[OF on_copy(4)]
      by (rule grows_trans)
    moreover have "objects h' ! b = objects h ! b" if "b < length (objects h)" for b
    proof -
      have "objects h' ! b = objects h1 ! b"
        using marginalize_body_effect(3)[OF on_copy(4), of b] that c by simp
      then show ?thesis using copy_effect(3)[OF on_copy(3) that] by simp
    qed
    ultimately show ?thesis by blast
  qed
  then show "grows h h'"
    and "\<And>b. b \<noteq> a \<Longrightarrow> b < length (objects h) \<Longrightarrow> objects h' ! b = objects h ! b"
    by blast+
qed

lemma marginalize_other_view:
  assumes "marginalize h a arg inplace = (r, h')" "view h b = Some st" "b \<noteq> a"
  shows "view h' b = Some st"
  using view_frame[OF assms(2) marginalize_frame(1)[OF assms(1)]]
    marginalize_frame(2)[OF assms(1) assms(3)] view_SomeD(1)[OF assms(2)] by simp

lemma precision_matrix_other_view:
  assumes "precision_matrix linalg_inv h a = (r, h')" "view h b = Some st" "b \<noteq> a"
  shows "view h' b = Some st"
  using view_frame[OF assms(2) precision_matrix_effect(1)[OF assms(1)]]
    precision_matrix_effect(4)[OF assms(1) assms(3)] by simp

section \<open>Facts about the example\<close>

lemma ex_view: "view ex_heap 0 = Some ex_dist"
  by (simp add: view_def lookup_def ex_heap_def ex_dist_def)

lemma ex_consistent: "consistent ex_dist"
  by (simp add: consistent_def mat_shape_def ex_dist_def)

lemma ex_distinct: "distinct (vars ex_dist)"
  by (simp add: ex_dist_def)

lemma ex_init: "init ex_caller 0 ex_mean ex_cov = (Inr 0, ex_heap)"
  by (simp add: init_def lookup_def ex_caller_def ex_mean_def ex_cov_def ex_heap_def ex_dist_def
      np_defs mat_shape_def)

lemma upt_3: "[0..<3] = [0, 1, 2]"
  by (simp add: upt_rec)

lemma ex_marginal:
  "marginal ex_dist [''x3''] =
     \<lparr>vars = [''x1'', ''x2''], mean = \<lparr>nrows = 2, ncols = 1, elems = [1, -3]\<rparr>,
      cov = \<lparr>nrows = 2, ncols = 2, elems = [4, 2, 2, 5]\<rparr>, prec = None\<rparr>"
  by (simp add: marginal_def kept_def entry_def ex_dist_def upt_3)

lemma ex_reachable: "reachable ex_inv ex_heap"
proof -
  have "reachable ex_inv ex_caller"
    by (rule reachable.initial) (simp add: ex_caller_def)
  moreover have "step ex_inv ex_caller ex_heap"
    using ex_init by (rule step.construction)
  ultimately show ?thesis by (rule reachable.operation)
qed

lemma ex_inv_exact: "exact_inverse ex_inv"
  unfolding exact_inverse_def
proof (intro allI impI)
  fix m p assume a: "ex_inv m = Some p"
  show "mat_mul p m = identity_matrix (nrows m)"
  proof (cases "m = cov ex_dist")
    case True
    then have "p = ex_precision" using a by (simp add: ex_inv_def)
    then show ?thesis using True
      by (simp add: mat_mul_def identity_matrix_def entry_def ex_precision_def ex_dist_def upt_3)
  next
    case False
    then have m: "m = \<lparr>nrows = 2, ncols = 2, elems = [4, 2, 2, 5]\<rparr>" and "p = ex_precision_12"
      using a by (auto simp: ex_inv_def split: if_splits)
    then show ?thesis
      by (simp add: mat_mul_def identity_matrix_def entry_def ex_precision_12_def upt_rec)
  qed
qed

lemma ex_access: "precision_matrix ex_inv ex_heap 0 = (Inr 2, ex_heap_cached)"
  by (simp add: precision_matrix_def lookup_def ex_heap_def ex_heap_cached_def ex_inv_def)

lemma ex_cached_view: "view ex_heap_cached 0 = Some (ex_dist\<lparr>prec := Some ex_precision\<rparr>)"
  by (simp add: view_def lookup_def ex_heap_cached_def ex_dist_def)

lemma ex_cached_reachable: "reachable ex_inv ex_heap_cached"
  using ex_reachable step.precision_access[OF ex_access] by (rule reachable.operation)

lemma ex_singular_view: "view ex_singular_heap 0 = Some ex_singular_dist"
  by (simp add: view_def lookup_def ex_singular_heap_def ex_singular_dist_def ex_dist_def)

lemma ex_marginalize_cached:
  "marginalize ex_heap_cached 0 (PySeq [''x3'']) True =
     (Inr None,
      \<lparr>pylists = [vars ex_dist, [''x1'', ''x2'']],
        arrays = [mean ex_dist, cov ex_dist, ex_precision,
                  \<lparr>nrows = 2, ncols = 1, elems = [1, -3]\<rparr>,
                  \<lparr>nrows = 2, ncols = 2, elems = [4, 2, 2, 5]\<rparr>],
        objects = [\<lparr>variables = 1, mean_vector = 3, covariance_matrix = 4,
                    cached_precision = None\<rparr>]\<rparr>)"
proof -
  have c: "consistent (ex_dist\<lparr>prec := Some ex_precision\<rparr>)"
    using ex_consistent by (simp add: consistent_def)
  have k: "kept (vars ex_dist) [''x3''] = [0, 1]"
    by (simp add: kept_def ex_dist_def upt_3)
  have b: "marginalize_body ex_heap_cached 0 0 [''x3''] = rebind ex_heap_cached 0 [0, 1]"
    using marginalize_body_ok[OF ex_cached_view ex_cached_view, of "[''x3'']"] ex_distinct k
    by (simp add: ex_dist_def)
  have "rebind ex_heap_cached 0 [0, 1] =
     (Inr (),
      \<lparr>pylists = [vars ex_dist, [''x1'', ''x2'']],
        arrays = [mean ex_dist, cov ex_dist, ex_precision,
                  \<lparr>nrows = 2, ncols = 1, elems = [1, -3]\<rparr>,
                  \<lparr>nrows = 2, ncols = 2, elems = [4, 2, 2, 5]\<rparr>],
        objects = [\<lparr>variables = 1, mean_vector = 3, covariance_matrix = 4,
                    cached_precision = None\<rparr>]\<rparr>)"
    using rebind_ok[OF ex_cached_view c, of "[0, 1]"]
    by (simp add: ex_heap_cached_def ex_dist_def entry_def)
  then show ?thesis using b by (simp add: marginalize_def)
qed

lemma ex_copy:
  "copy ex_heap 0 =
     (Inr 1,
      \<lparr>pylists = [vars ex_dist],
        arrays = [mean ex_dist, cov ex_dist, mean ex_dist, cov ex_dist],
        objects = [\<lparr>variables = 0, mean_vector = 0, covariance_matrix = 1,
                    cached_precision = None\<rparr>,
                   \<lparr>variables = 0, mean_vector = 2, covariance_matrix = 3,
                    cached_precision = None\<rparr>]\<rparr>)"
  using copy_ok[OF ex_view ex_consistent] by (simp add: ex_heap_def)

lemma ex_copy_cached:
  "copy ex_heap_cached 0 =
     (Inr 1,
      \<lparr>pylists = [vars ex_dist],
        arrays = [mean ex_dist, cov ex_dist, ex_precision, mean ex_dist, cov ex_dist],
        objects = [\<lparr>variables = 0, mean_vector = 0, covariance_matrix = 1,
                    cached_precision = Some 2\<rparr>,
                   \<lparr>variables = 0, mean_vector = 3, covariance_matrix = 4,
                    cached_precision = Some 2\<rparr>]\<rparr>)"
proof -
  have "consistent (ex_dist\<lparr>prec := Some ex_precision\<rparr>)"
    using ex_consistent by (simp add: consistent_def)
  from copy_ok[OF ex_cached_view this] show ?thesis by (simp add: ex_heap_cached_def)
qed

text \<open>
  The example with the exact inversion: the constructor does not call the inversion, so
  the stores of the example are reachable with any inversion; elimination finds no pivot
  in the second column of the matrix of ones and finds the inverse of the covariance
  matrix of the example.
\<close>

lemma ex_reachable_any: "reachable linalg_inv ex_heap"
proof -
  have "reachable linalg_inv ex_caller"
    by (rule reachable.initial) (simp add: ex_caller_def)
  moreover have "step linalg_inv ex_caller ex_heap"
    using ex_init by (rule step.construction)
  ultimately show ?thesis by (rule reachable.operation)
qed

lemma ex_singular_reachable_any: "reachable linalg_inv ex_singular_heap"
proof -
  have "init ex_caller 0 ex_mean
          (PyValue \<lparr>shape = [3, 3], data = [1, 1, 1, 1, 1, 1, 1, 1, 1]\<rparr>)
      = (Inr 0, ex_singular_heap)"
    by (simp add: init_def lookup_def ex_caller_def ex_mean_def ex_singular_heap_def
        ex_singular_dist_def ex_dist_def np_defs mat_shape_def)
  then have "step linalg_inv ex_caller ex_singular_heap" by (rule step.construction)
  moreover have "reachable linalg_inv ex_caller"
    by (rule reachable.initial) (simp add: ex_caller_def)
  ultimately show ?thesis by (rule reachable.operation[rotated])
qed

lemma ex_singular_consistent: "consistent ex_singular_dist"
  by (simp add: consistent_def ex_singular_dist_def ex_dist_def mat_shape_def)

lemma ex_gauss_inv: "gauss_inv (cov ex_dist) = Some ex_precision"
  by (simp add: gauss_inv_def square_def ex_dist_def augmented_def entry_def
      upt_3 scale_row_def sub_row_def ex_precision_def)

lemma ex_singular_gauss_inv: "gauss_inv (cov ex_singular_dist) = None"
  by (simp add: gauss_inv_def square_def ex_singular_dist_def ex_dist_def augmented_def entry_def
      upt_3 scale_row_def sub_row_def)

lemma consistent_square: "consistent st \<Longrightarrow> square (cov st)"
  by (simp add: consistent_def square_def mat_shape_def)

lemma ex_singular: "singular (cov ex_singular_dist)"
  using gauss_inv_contract[unfolded inversion_contract_def, rule_format,
      OF consistent_square[OF ex_singular_consistent]]
  by (simp add: ex_singular_gauss_inv)

lemma ex_invertible: "is_inverse ex_precision (cov ex_dist)"
  using gauss_inv_contract[unfolded inversion_contract_def, rule_format,
      OF consistent_square[OF ex_consistent]]
  by (simp add: ex_gauss_inv)

text \<open>
  The contract says when the inversion raises: an inversion that raises on every matrix
  does not meet it, since the covariance matrix of the example has an inverse.
\<close>

lemma raising_inversion_breaks_contract:
  "\<not> inversion_contract (\<lambda>m. None :: real matrix option)"
proof
  assume "inversion_contract (\<lambda>m. None :: real matrix option)"
  then have "singular (cov ex_dist)"
    using consistent_square[OF ex_consistent] by (simp add: inversion_contract_def)
  then show False using ex_invertible by (auto simp: singular_def)
qed

section \<open>Claims\<close>

subsection \<open>C1\<close>

text \<open>
  C1. Take an instance whose value in the store is \<open>st\<close>: distinct variables V, an
  n x 1 mean vector and an n x n covariance matrix. For every sequence \<open>rs\<close> of
  identifiers that are all in V, \<open>marginalize\<close> succeeds in either mode, and the
  instance it yields (the receiver when \<open>inplace\<close>, the returned instance otherwise) has
  the value \<open>marginal st rs\<close>. Its variables are those of V that are not in \<open>rs\<close>, in
  the order of V. With \<open>kept\<close> the ascending positions of these variables, element \<open>a\<close>
  of the new mean vector is element \<open>kept ! a\<close> of the old one, and entry \<open>(a, b)\<close> of
  the new covariance matrix is entry \<open>(kept ! a, kept ! b)\<close> of the old one. A sequence
  with the same elements as \<open>rs\<close>, in any order, gives the same result and the same
  store. Removing all variables gives the distribution without variables, with a 0 x 1
  mean vector and a 0 x 0 covariance matrix, and no error. Removing none leaves the
  variables, the mean vector and the covariance matrix equal by value.
\<close>

theorem marginalize_marginal:
  assumes "view h self = Some st" and "consistent st"
    and "distinct (vars st)" and "set rs \<subseteq> set (vars st)"
  shows "(\<exists>r h'. marginalize h self (PySeq rs) inplace = (Inr r, h') \<and>
            view h' (case r of None \<Rightarrow> self | Some c \<Rightarrow> c) = Some (marginal st rs)) \<and>
         (\<forall>rs'. set rs' = set rs \<longrightarrow>
            marginalize h self (PySeq rs') inplace = marginalize h self (PySeq rs) inplace) \<and>
         vars (marginal st rs) = filter (\<lambda>v. v \<notin> set rs) (vars st) \<and>
         mat_shape (mean (marginal st rs)) = (length (kept (vars st) rs), 1) \<and>
         mat_shape (cov (marginal st rs)) =
           (length (kept (vars st) rs), length (kept (vars st) rs)) \<and>
         (\<forall>a < length (kept (vars st) rs).
            vars (marginal st rs) ! a = vars st ! (kept (vars st) rs ! a) \<and>
            elems (mean (marginal st rs)) ! a = elems (mean st) ! (kept (vars st) rs ! a) \<and>
            (\<forall>b < length (kept (vars st) rs).
               entry (cov (marginal st rs)) a b =
               entry (cov st) (kept (vars st) rs ! a) (kept (vars st) rs ! b))) \<and>
         (set rs = set (vars st) \<longrightarrow>
            marginal st rs =
              \<lparr>vars = [], mean = \<lparr>nrows = 0, ncols = 1, elems = []\<rparr>,
               cov = \<lparr>nrows = 0, ncols = 0, elems = []\<rparr>, prec = None\<rparr>) \<and>
         (rs = [] \<longrightarrow>
            vars (marginal st rs) = vars st \<and> mean (marginal st rs) = mean st \<and>
            cov (marginal st rs) = cov st)"
proof -
  have 1: "\<exists>r h'. marginalize h self (PySeq rs) inplace = (Inr r, h') \<and>
            view h' (case r of None \<Rightarrow> self | Some c \<Rightarrow> c) = Some (marginal st rs)"
  proof (cases inplace)
    case True
    then show ?thesis using marginalize_inplace_ok[OF assms] by auto
  next
    case False
    then show ?thesis using marginalize_copy_ok[OF assms] by auto
  qed
  have 2: "\<forall>rs'. set rs' = set rs \<longrightarrow>
            marginalize h self (PySeq rs') inplace = marginalize h self (PySeq rs) inplace"
    using marginalize_set_cong by blast
  have 3: "vars (marginal st rs) = filter (\<lambda>v. v \<notin> set rs) (vars st)"
    and 4: "mat_shape (mean (marginal st rs)) = (length (kept (vars st) rs), 1)"
    and 5: "mat_shape (cov (marginal st rs)) =
           (length (kept (vars st) rs), length (kept (vars st) rs))"
    by (simp_all add: marginal_def mat_shape_def)
  have 6: "\<forall>a < length (kept (vars st) rs).
            vars (marginal st rs) ! a = vars st ! (kept (vars st) rs ! a) \<and>
            elems (mean (marginal st rs)) ! a = elems (mean st) ! (kept (vars st) rs ! a) \<and>
            (\<forall>b < length (kept (vars st) rs).
               entry (cov (marginal st rs)) a b =
               entry (cov st) (kept (vars st) rs ! a) (kept (vars st) rs ! b))"
    using marginal_entries by blast
  have 7: "set rs = set (vars st) \<longrightarrow>
            marginal st rs =
              \<lparr>vars = [], mean = \<lparr>nrows = 0, ncols = 1, elems = []\<rparr>,
               cov = \<lparr>nrows = 0, ncols = 0, elems = []\<rparr>, prec = None\<rparr>"
    using marginal_all[of st rs] by simp
  have 8: "rs = [] \<longrightarrow>
            vars (marginal st rs) = vars st \<and> mean (marginal st rs) = mean st \<and>
            cov (marginal st rs) = cov st"
    using marginal_noop[OF assms(2)] by simp
  from 1 2 3 4 5 6 7 8 show ?thesis by (intro conjI)
qed

text \<open>
  The example of the specification: removing \<open>x3\<close> leaves the variables \<open>x1, x2\<close>, the
  mean \<open>[1, -3]\<close> and the covariance \<open>[[4, 2], [2, 5]]\<close>; the order of the removal list
  does not matter; removing all three variables and removing none.
\<close>

theorem marginalize_marginal_witness:
  "view ex_heap 0 = Some ex_dist \<and> consistent ex_dist \<and> distinct (vars ex_dist) \<and>
   set [''x3''] \<subseteq> set (vars ex_dist) \<and>
   (\<exists>r h'. marginalize ex_heap 0 (PySeq [''x3'']) True = (Inr r, h') \<and>
      view h' (case r of None \<Rightarrow> 0 | Some c \<Rightarrow> c) =
        Some \<lparr>vars = [''x1'', ''x2''], mean = \<lparr>nrows = 2, ncols = 1, elems = [1, -3]\<rparr>,
              cov = \<lparr>nrows = 2, ncols = 2, elems = [4, 2, 2, 5]\<rparr>, prec = None\<rparr>) \<and>
   marginalize ex_heap 0 (PySeq [''x3'', ''x1'']) True =
     marginalize ex_heap 0 (PySeq [''x1'', ''x3'']) True \<and>
   entry (cov (marginal ex_dist [''x3''])) 1 0 = entry (cov ex_dist) 1 0 \<and>
   (\<exists>r h'. marginalize ex_heap 0 (PySeq [''x2'', ''x3'', ''x1'']) True = (Inr r, h') \<and>
      view h' (case r of None \<Rightarrow> 0 | Some c \<Rightarrow> c) =
        Some \<lparr>vars = [], mean = \<lparr>nrows = 0, ncols = 1, elems = []\<rparr>,
              cov = \<lparr>nrows = 0, ncols = 0, elems = []\<rparr>, prec = None\<rparr>) \<and>
   (\<exists>r h'. marginalize ex_heap 0 (PySeq []) True = (Inr r, h') \<and>
      view h' (case r of None \<Rightarrow> 0 | Some c \<Rightarrow> c) = Some ex_dist)"
proof -
  have s1: "set [''x3''] \<subseteq> set (vars ex_dist)"
    and s2: "set [''x1'', ''x3''] \<subseteq> set (vars ex_dist)"
    and s3: "set [''x2'', ''x3'', ''x1''] \<subseteq> set (vars ex_dist)"
    and s4: "set [] \<subseteq> set (vars ex_dist)"
    by (simp_all add: ex_dist_def)
  note t1 = marginalize_marginal[OF ex_view ex_consistent ex_distinct s1, of True]
  note t2 = marginalize_marginal[OF ex_view ex_consistent ex_distinct s2, of True]
  note t3 = marginalize_marginal[OF ex_view ex_consistent ex_distinct s3, of True]
  note t4 = marginalize_marginal[OF ex_view ex_consistent ex_distinct s4, of True]
  note a = t1[THEN conjunct1, unfolded ex_marginal]
  have "set [''x3'', ''x1''] = set [''x1'', ''x3'']" by auto
  then have b: "marginalize ex_heap 0 (PySeq [''x3'', ''x1'']) True =
     marginalize ex_heap 0 (PySeq [''x1'', ''x3'']) True"
    by (rule t2[THEN conjunct2, THEN conjunct1, rule_format])
  have k: "kept (vars ex_dist) [''x3''] = [0, 1]"
    by (simp add: kept_def ex_dist_def upt_3)
  note f = t1[THEN conjunct2, THEN conjunct2, THEN conjunct2, THEN conjunct2, THEN conjunct2,
      THEN conjunct1, rule_format, of 1, THEN conjunct2, THEN conjunct2, rule_format, of 0]
  have c: "entry (cov (marginal ex_dist [''x3''])) 1 0 = entry (cov ex_dist) 1 0"
    using f by (simp add: k)
  have "set [''x2'', ''x3'', ''x1''] = set (vars ex_dist)" by (auto simp: ex_dist_def)
  note g = t3[THEN conjunct2, THEN conjunct2, THEN conjunct2, THEN conjunct2, THEN conjunct2,
      THEN conjunct2, THEN conjunct1, rule_format, OF this]
  note d = t3[THEN conjunct1, unfolded g]
  note h = t4[THEN conjunct2, THEN conjunct2, THEN conjunct2, THEN conjunct2, THEN conjunct2,
      THEN conjunct2, THEN conjunct2, rule_format, OF refl]
  have "marginal ex_dist [] = ex_dist"
    using h by (intro dist.equality) (simp_all add: marginal_def ex_dist_def)
  note e = t4[THEN conjunct1, unfolded this]
  from ex_view ex_consistent ex_distinct s1 a b c d e show ?thesis by (intro conjI)
qed

subsection \<open>C2\<close>

text \<open>
  C2. Take a consistent instance with value \<open>st\<close> whose cache is unset and whose
  covariance matrix the inversion inverts, \<open>linalg_inv (cov st) = Some pm\<close>. The first
  access to \<open>precision_matrix\<close> returns an object that holds \<open>pm\<close> and stores it in the
  cache. The next access returns the same object and leaves the store as it is. When
  the inversion is exact, the product of the precision matrix and the covariance matrix
  is the identity matrix. After an in-place \<open>marginalize\<close> the receiver holds the
  marginal with its cache unset, and the next access inverts the new covariance matrix:
  it returns another object, which holds the inverse of the covariance matrix of the
  marginal.
\<close>

theorem precision_matrix_memoized:
  assumes "view h self = Some st" and "prec st = None" and "consistent st"
    and "distinct (vars st)" and "linalg_inv (cov st) = Some pm"
  shows "\<exists>p h1. precision_matrix linalg_inv h self = (Inr p, h1) \<and>
           lookup (arrays h1) p = Inr pm \<and>
           view h1 self = Some (st\<lparr>prec := Some pm\<rparr>) \<and>
           precision_matrix linalg_inv h1 self = (Inr p, h1) \<and>
           (exact_inverse linalg_inv \<longrightarrow> mat_mul pm (cov st) = identity_matrix (length (vars st))) \<and>
           (\<forall>rs. set rs \<subseteq> set (vars st) \<longrightarrow>
              (\<exists>h2. marginalize h1 self (PySeq rs) True = (Inr None, h2) \<and>
                 view h2 self = Some (marginal st rs) \<and>
                 (\<forall>pm2. linalg_inv (cov (marginal st rs)) = Some pm2 \<longrightarrow>
                    (\<exists>p2 h3. precision_matrix linalg_inv h2 self = (Inr p2, h3) \<and>
                       p2 \<noteq> p \<and> lookup (arrays h3) p2 = Inr pm2 \<and>
                       view h3 self = Some ((marginal st rs)\<lparr>prec := Some pm2\<rparr>)))))"
proof -
  obtain res h1 where r: "precision_matrix linalg_inv h self = (res, h1)"
    by (cases "precision_matrix linalg_inv h self")
  note pv = precision_matrix_view[where linalg_inv = linalg_inv, OF assms(1,2,5) r]
  let ?p = "length (arrays h)"
  let ?st1 = "st\<lparr>prec := Some pm\<rparr>"
  have c1: "consistent ?st1" using assms(3) by (simp add: consistent_def)
  have ex: "mat_mul pm (cov st) = identity_matrix (length (vars st))" if "exact_inverse linalg_inv"
    using that assms(3,5) by (auto simp: exact_inverse_def consistent_def mat_shape_def)
  have m: "\<exists>h2. marginalize h1 self (PySeq rs) True = (Inr None, h2) \<and>
                 view h2 self = Some (marginal st rs) \<and>
                 (\<forall>pm2. linalg_inv (cov (marginal st rs)) = Some pm2 \<longrightarrow>
                    (\<exists>p2 h3. precision_matrix linalg_inv h2 self = (Inr p2, h3) \<and>
                       p2 \<noteq> ?p \<and> lookup (arrays h3) p2 = Inr pm2 \<and>
                       view h3 self = Some ((marginal st rs)\<lparr>prec := Some pm2\<rparr>)))"
    if sub: "set rs \<subseteq> set (vars st)" for rs
  proof -
    have ms: "marginal ?st1 rs = marginal st rs" by (simp add: marginal_def)
    have d1: "distinct (vars ?st1)" and s1: "set rs \<subseteq> set (vars ?st1)"
      using assms(4) sub by simp_all
    from marginalize_inplace_ok[OF pv(3) c1 d1 s1]
    obtain h2 where h2: "marginalize h1 self (PySeq rs) True = (Inr None, h2)"
      "view h2 self = Some (marginal st rs)" unfolding ms by blast
    have pn: "prec (marginal st rs) = None" by (simp add: marginal_def)
    have g: "grows h1 h2"
      using h2(1) marginalize_body_effect(1)[of h1 self self rs _ h2]
      by (auto simp: marginalize_def split: prod.splits sum.splits)
    have len: "length (arrays h) < length (arrays h1)"
      using pv(2) by (simp add: lookup_Inr)
    then have len2: "length (arrays h) < length (arrays h2)"
      using g by (auto simp: grows_def prefix_def)
    have a: "\<exists>p2 h3. precision_matrix linalg_inv h2 self = (Inr p2, h3) \<and>
                       p2 \<noteq> ?p \<and> lookup (arrays h3) p2 = Inr pm2 \<and>
                       view h3 self = Some ((marginal st rs)\<lparr>prec := Some pm2\<rparr>)"
      if i2: "linalg_inv (cov (marginal st rs)) = Some pm2" for pm2
    proof -
      obtain res3 h3 where r3: "precision_matrix linalg_inv h2 self = (res3, h3)"
        by (cases "precision_matrix linalg_inv h2 self")
      note pv3 = precision_matrix_view[where linalg_inv = linalg_inv, OF h2(2) pn i2 r3]
      show ?thesis using r3 pv3(1-3) len2 by auto
    qed
    show ?thesis
    proof (rule exI[of _ h2], intro conjI allI impI)
      show "marginalize h1 self (PySeq rs) True = (Inr None, h2)" by (rule h2(1))
      show "view h2 self = Some (marginal st rs)" by (rule h2(2))
      show "\<exists>p2 h3. precision_matrix linalg_inv h2 self = (Inr p2, h3) \<and>
                       p2 \<noteq> ?p \<and> lookup (arrays h3) p2 = Inr pm2 \<and>
                       view h3 self = Some ((marginal st rs)\<lparr>prec := Some pm2\<rparr>)"
        if "linalg_inv (cov (marginal st rs)) = Some pm2" for pm2
        using that by (rule a)
    qed
  qed
  have r1: "precision_matrix linalg_inv h self = (Inr ?p, h1)" using r pv(1) by simp
  show ?thesis
  proof (rule exI[of _ ?p], rule exI[of _ h1], intro conjI allI impI)
    show "precision_matrix linalg_inv h self = (Inr ?p, h1)" by (rule r1)
    show "lookup (arrays h1) ?p = Inr pm" by (rule pv(2))
    show "view h1 self = Some ?st1" by (rule pv(3))
    show "precision_matrix linalg_inv h1 self = (Inr ?p, h1)" by (rule pv(4))
    show "mat_mul pm (cov st) = identity_matrix (length (vars st))" if "exact_inverse linalg_inv"
      using that by (rule ex)
    show "\<exists>h2. marginalize h1 self (PySeq rs) True = (Inr None, h2) \<and>
                 view h2 self = Some (marginal st rs) \<and>
                 (\<forall>pm2. linalg_inv (cov (marginal st rs)) = Some pm2 \<longrightarrow>
                    (\<exists>p2 h3. precision_matrix linalg_inv h2 self = (Inr p2, h3) \<and>
                       p2 \<noteq> ?p \<and> lookup (arrays h3) p2 = Inr pm2 \<and>
                       view h3 self = Some ((marginal st rs)\<lparr>prec := Some pm2\<rparr>)))"
      if "set rs \<subseteq> set (vars st)" for rs
      using that by (rule m)
  qed
qed

text \<open>
  The example of the specification: the precision matrix has \<open>-0.125\<close> at \<open>[0][1]\<close>,
  a second access returns the same object, and after \<open>marginalize(['x3'])\<close> the access
  returns the inverse of \<open>[[4, 2], [2, 5]]\<close> in a new object.
\<close>

theorem precision_matrix_memoized_witness:
  "view ex_heap 0 = Some ex_dist \<and> prec ex_dist = None \<and> consistent ex_dist \<and>
   distinct (vars ex_dist) \<and> ex_inv (cov ex_dist) = Some ex_precision \<and>
   exact_inverse ex_inv \<and> set [''x3''] \<subseteq> set (vars ex_dist) \<and>
   entry ex_precision 0 1 = - 1 / 8 \<and>
   (\<exists>p h1. precision_matrix ex_inv ex_heap 0 = (Inr p, h1) \<and>
      lookup (arrays h1) p = Inr ex_precision \<and>
      precision_matrix ex_inv h1 0 = (Inr p, h1) \<and>
      mat_mul ex_precision (cov ex_dist) = identity_matrix 3 \<and>
      (\<exists>h2. marginalize h1 0 (PySeq [''x3'']) True = (Inr None, h2) \<and>
         (\<exists>p2 h3. precision_matrix ex_inv h2 0 = (Inr p2, h3) \<and> p2 \<noteq> p \<and>
            lookup (arrays h3) p2 = Inr ex_precision_12)))"
proof -
  have n: "prec ex_dist = None" by (simp add: ex_dist_def)
  have i: "ex_inv (cov ex_dist) = Some ex_precision" by (simp add: ex_inv_def)
  have s: "set [''x3''] \<subseteq> set (vars ex_dist)" by (simp add: ex_dist_def)
  have e: "entry ex_precision 0 1 = - 1 / 8" by (simp add: entry_def ex_precision_def)
  have l: "length (vars ex_dist) = 3" by (simp add: ex_dist_def)
  have i2: "ex_inv (cov (marginal ex_dist [''x3''])) = Some ex_precision_12"
    unfolding ex_marginal by (simp add: ex_inv_def ex_dist_def)
  from precision_matrix_memoized[where linalg_inv = ex_inv, OF ex_view n ex_consistent ex_distinct i]
  obtain p h1 where
    f: "precision_matrix ex_inv ex_heap 0 = (Inr p, h1)"
      "lookup (arrays h1) p = Inr ex_precision"
      "precision_matrix ex_inv h1 0 = (Inr p, h1)"
      "exact_inverse ex_inv \<longrightarrow>
         mat_mul ex_precision (cov ex_dist) = identity_matrix (length (vars ex_dist))"
      "\<forall>rs. set rs \<subseteq> set (vars ex_dist) \<longrightarrow>
              (\<exists>h2. marginalize h1 0 (PySeq rs) True = (Inr None, h2) \<and>
                 view h2 0 = Some (marginal ex_dist rs) \<and>
                 (\<forall>pm2. ex_inv (cov (marginal ex_dist rs)) = Some pm2 \<longrightarrow>
                    (\<exists>p2 h3. precision_matrix ex_inv h2 0 = (Inr p2, h3) \<and>
                       p2 \<noteq> p \<and> lookup (arrays h3) p2 = Inr pm2 \<and>
                       view h3 0 = Some ((marginal ex_dist rs)\<lparr>prec := Some pm2\<rparr>))))"
    by (elim exE conjE)
  have m: "mat_mul ex_precision (cov ex_dist) = identity_matrix 3"
    using f(4)[rule_format, OF ex_inv_exact] unfolding l .
  from f(5)[rule_format, OF s] obtain h2 where
    g: "marginalize h1 0 (PySeq [''x3'']) True = (Inr None, h2)"
      "\<forall>pm2. ex_inv (cov (marginal ex_dist [''x3''])) = Some pm2 \<longrightarrow>
                    (\<exists>p2 h3. precision_matrix ex_inv h2 0 = (Inr p2, h3) \<and>
                       p2 \<noteq> p \<and> lookup (arrays h3) p2 = Inr pm2 \<and>
                       view h3 0 = Some ((marginal ex_dist [''x3''])\<lparr>prec := Some pm2\<rparr>))"
    by (elim exE conjE)
  from g(2)[rule_format, OF i2] obtain p2 h3 where
    k: "precision_matrix ex_inv h2 0 = (Inr p2, h3)" "p2 \<noteq> p"
      "lookup (arrays h3) p2 = Inr ex_precision_12"
    by (elim exE conjE)
  have r: "\<exists>p h1. precision_matrix ex_inv ex_heap 0 = (Inr p, h1) \<and>
      lookup (arrays h1) p = Inr ex_precision \<and>
      precision_matrix ex_inv h1 0 = (Inr p, h1) \<and>
      mat_mul ex_precision (cov ex_dist) = identity_matrix 3 \<and>
      (\<exists>h2. marginalize h1 0 (PySeq [''x3'']) True = (Inr None, h2) \<and>
         (\<exists>p2 h3. precision_matrix ex_inv h2 0 = (Inr p2, h3) \<and> p2 \<noteq> p \<and>
            lookup (arrays h3) p2 = Inr ex_precision_12))"
    using f(1-3) m g(1) k
    by (intro exI[of _ p] exI[of _ h1] exI[of _ h2] exI[of _ p2] exI[of _ h3] conjI)
  from ex_view n ex_consistent ex_distinct i ex_inv_exact s e r show ?thesis by (intro conjI)
qed

subsection \<open>C3\<close>

text \<open>
  C3 as stated fails for a mean argument that is a scalar. One variable \<open>x1\<close>, mean
  \<open>5.0\<close> and covariance \<open>[[2]]\<close>: \<open>np.reshape\<close> makes a 1 x 1 column of the mean and
  \<open>np.matrix\<close> a 1 x 1 matrix of the covariance, so after coercion both dimensions match
  the one variable; and yet construction raises \<open>TypeError\<close>, because \<open>len\<close> has no value
  on a scalar. With the three variables of the example the scalar mean raises
  \<open>TypeError\<close> too, neither \<open>ValueError\<close> (DimensionError) nor success.
\<close>

theorem init_scalar_mean_counterexample:
  "fst (init ex_caller_single 0 (PyValue \<lparr>shape = [], data = [5]\<rparr>)
          (PyValue \<lparr>shape = [1, 1], data = [2]\<rparr>)) = Inl TypeError \<and>
   lookup (pylists ex_caller_single) 0 = Inr [''x1''] \<and>
   np_reshape (PyValue \<lparr>shape = [], data = [5::real]\<rparr>) [1, 1]
     = Inr (NdArray \<lparr>shape = [1, 1], data = [5]\<rparr>) \<and>
   np_matrix (PyValue \<lparr>shape = [1, 1], data = [2::real]\<rparr>)
     = Inr \<lparr>nrows = 1, ncols = 1, elems = [2]\<rparr> \<and>
   fst (init ex_caller 0 (PyValue \<lparr>shape = [], data = [5]\<rparr>) ex_cov) = Inl TypeError"
  by (simp add: init_def lookup_def ex_caller_single_def ex_caller_def np_defs)

text \<open>
  C3, amended. Construction over a list \<open>vs\<close> of n variables. \<open>ValueError\<close> is the
  exception that the specification calls DimensionError, and the length of the mean
  argument is what \<open>len\<close> returns, its first dimension. A mean argument whose length is
  not n is rejected with \<open>ValueError\<close>. A scalar mean argument is rejected with
  \<open>TypeError\<close>. A mean argument of length n that does not hold n numbers is rejected
  with \<open>ValueError\<close>, by \<open>np.reshape\<close>. For a mean argument that is not a scalar,
  construction fails with \<open>ValueError\<close> unless \<open>np.matrix\<close> makes an n x n matrix of
  the covariance argument. When the mean argument has length n and holds n numbers and
  the covariance argument is coerced to an n x n matrix, construction succeeds: the new
  instance refers to the list of variables that was passed, its mean vector is the
  n x 1 column of the numbers given, its covariance matrix is the coerced matrix, and
  its cache is unset.
\<close>

theorem init_dimensions:
  assumes "lookup (pylists h) variables_ref = Inr vs"
  shows "(\<forall>m. py_len mean_arg = Inr m \<longrightarrow> m \<noteq> length vs \<longrightarrow>
            fst (init h variables_ref mean_arg cov_arg) = Inl ValueError) \<and>
         (np_shape mean_arg = [] \<longrightarrow>
            fst (init h variables_ref mean_arg cov_arg) = Inl TypeError) \<and>
         (py_len mean_arg = Inr (length vs) \<longrightarrow> np_size mean_arg \<noteq> length vs \<longrightarrow>
            fst (init h variables_ref mean_arg cov_arg) = Inl ValueError) \<and>
         (np_shape mean_arg \<noteq> [] \<longrightarrow>
          \<not> (\<exists>cm. np_matrix cov_arg = Inr cm \<and> mat_shape cm = (length vs, length vs)) \<longrightarrow>
            fst (init h variables_ref mean_arg cov_arg) = Inl ValueError) \<and>
         (\<forall>cm. py_len mean_arg = Inr (length vs) \<longrightarrow> np_size mean_arg = length vs \<longrightarrow>
            np_matrix cov_arg = Inr cm \<longrightarrow> mat_shape cm = (length vs, length vs) \<longrightarrow>
            (\<exists>h'. init h variables_ref mean_arg cov_arg = (Inr (length (objects h)), h') \<and>
                  variables (objects h' ! length (objects h)) = variables_ref \<and>
                  view h' (length (objects h)) =
                    Some \<lparr>vars = vs,
                          mean = \<lparr>nrows = length vs, ncols = 1, elems = np_data mean_arg\<rparr>,
                          cov = cm, prec = None\<rparr>))"
proof -
  have 1: "fst (init h variables_ref mean_arg cov_arg) = Inl ValueError"
    if "py_len mean_arg = Inr m" "m \<noteq> length vs" for m
    using assms that by (simp add: init_def)
  have 0: "fst (init h variables_ref mean_arg cov_arg) = Inl TypeError"
    if "np_shape mean_arg = []"
    using assms that by (simp add: init_def py_len_def)
  have 2: "fst (init h variables_ref mean_arg cov_arg) = Inl ValueError"
    if "py_len mean_arg = Inr (length vs)" "np_size mean_arg \<noteq> length vs"
    using assms that by (simp add: init_def np_reshape_def)
  have 3: "fst (init h variables_ref mean_arg cov_arg) = Inl ValueError"
    if s: "np_shape mean_arg \<noteq> []"
      and n: "\<not> (\<exists>cm. np_matrix cov_arg = Inr cm \<and> mat_shape cm = (length vs, length vs))"
  proof -
    from s obtain m where m: "py_len mean_arg = Inr m"
      by (cases "np_shape mean_arg") (auto simp: py_len_def)
    show ?thesis
    proof (cases "m = length vs \<and> np_size mean_arg = length vs")
      case False
      then show ?thesis using 1[OF m] 2 m by blast
    next
      case True
      show ?thesis
      proof (cases "np_matrix cov_arg")
        case (Inl e)
        from True mean_column[of mean_arg "length vs"] obtain r mv where
          "np_reshape mean_arg [length vs, 1] = Inr r" "np_matrix r = Inr mv"
          by blast
        then show ?thesis using assms m True Inl np_matrix_error[OF Inl]
          by (simp add: init_def)
      next
        case (Inr cm)
        then have "mat_shape cm \<noteq> (length vs, length vs)" using n by blast
        moreover from True mean_column[of mean_arg "length vs"] obtain r mv where
          "np_reshape mean_arg [length vs, 1] = Inr r" "np_matrix r = Inr mv"
          by blast
        ultimately show ?thesis using assms m True Inr
          by (simp add: init_def)
      qed
    qed
  qed
  have 4: "\<exists>h'. init h variables_ref mean_arg cov_arg = (Inr (length (objects h)), h') \<and>
                  variables (objects h' ! length (objects h)) = variables_ref \<and>
                  view h' (length (objects h)) =
                    Some \<lparr>vars = vs,
                          mean = \<lparr>nrows = length vs, ncols = 1, elems = np_data mean_arg\<rparr>,
                          cov = cm, prec = None\<rparr>"
    if "py_len mean_arg = Inr (length vs)" "np_size mean_arg = length vs"
      "np_matrix cov_arg = Inr cm" "mat_shape cm = (length vs, length vs)" for cm
  proof -
    from assms have v: "variables_ref < length (pylists h)" "pylists h ! variables_ref = vs"
      by (simp_all add: lookup_Inr)
    from init_ok[of variables_ref h mean_arg cov_arg cm] v that
    show ?thesis by (simp add: view_def lookup_def nth_append)
  qed
  from 1 0 2 3 4 show ?thesis by blast
qed

text \<open>
  Three variables: a mean of length 2, a scalar mean, a 3 x 2 mean argument, a 3 x 2
  covariance argument and a covariance argument given as a nested list of shape
  1 x 3 x 3 are rejected. The arguments of the example are accepted, and so are the mean
  as a list of three numbers with the covariance as an \<open>ndarray\<close> of shape 1 x 3 x 3,
  whose axis of length 1 \<open>np.matrix\<close> drops.
\<close>

theorem init_dimensions_witness:
  "lookup (pylists ex_caller) 0 = Inr [''x1'', ''x2'', ''x3''] \<and>
   fst (init ex_caller 0 (PyValue \<lparr>shape = [2], data = [1, -3]\<rparr>) ex_cov) = Inl ValueError \<and>
   fst (init ex_caller 0 (PyValue \<lparr>shape = [], data = [1]\<rparr>) ex_cov) = Inl TypeError \<and>
   fst (init ex_caller 0 (NdArray \<lparr>shape = [3, 2], data = [1, -3, 4, 0, 0, 0]\<rparr>) ex_cov)
     = Inl ValueError \<and>
   fst (init ex_caller 0 ex_mean (NdArray \<lparr>shape = [3, 2], data = [4, 2, 2, 5, -2, -5]\<rparr>))
     = Inl ValueError \<and>
   fst (init ex_caller 0 ex_mean
          (PyValue \<lparr>shape = [1, 3, 3], data = [4, 2, -2, 2, 5, -5, -2, -5, 8]\<rparr>))
     = Inl ValueError \<and>
   (\<exists>h'. init ex_caller 0 ex_mean ex_cov = (Inr 0, h') \<and> view h' 0 = Some ex_dist) \<and>
   (\<exists>h'. init ex_caller 0 (PyValue \<lparr>shape = [3], data = [1, -3, 4]\<rparr>)
            (NdArray \<lparr>shape = [1, 3, 3], data = [4, 2, -2, 2, 5, -5, -2, -5, 8]\<rparr>) = (Inr 0, h') \<and>
         view h' 0 = Some ex_dist)"
proof -
  have l: "lookup (pylists ex_caller) 0 = Inr [''x1'', ''x2'', ''x3'']"
    by (simp add: lookup_def ex_caller_def)
  have a: "fst (init ex_caller 0 (PyValue \<lparr>shape = [2], data = [1, -3]\<rparr>) ex_cov) = Inl ValueError"
    by (rule init_dimensions[OF l, THEN conjunct1, rule_format, of _ 2])
      (simp_all add: np_defs)
  have a0: "fst (init ex_caller 0 (PyValue \<lparr>shape = [], data = [1]\<rparr>) ex_cov) = Inl TypeError"
    by (rule init_dimensions[OF l, THEN conjunct2, THEN conjunct1, rule_format])
      (simp add: np_defs)
  have b: "fst (init ex_caller 0 (NdArray \<lparr>shape = [3, 2], data = [1, -3, 4, 0, 0, 0]\<rparr>) ex_cov)
      = Inl ValueError"
    by (rule init_dimensions[OF l, THEN conjunct2, THEN conjunct2, THEN conjunct1, rule_format])
      (simp_all add: np_defs)
  have c: "fst (init ex_caller 0 ex_mean
                 (NdArray \<lparr>shape = [3, 2], data = [4, 2, 2, 5, -2, -5]\<rparr>)) = Inl ValueError"
    by (rule init_dimensions[OF l, THEN conjunct2, THEN conjunct2, THEN conjunct2, THEN conjunct1,
          rule_format])
      (simp_all add: ex_mean_def np_defs mat_shape_def)
  have c1: "fst (init ex_caller 0 ex_mean
         (PyValue \<lparr>shape = [1, 3, 3], data = [4, 2, -2, 2, 5, -5, -2, -5, 8]\<rparr>)) = Inl ValueError"
    by (rule init_dimensions[OF l, THEN conjunct2, THEN conjunct2, THEN conjunct2, THEN conjunct1,
          rule_format])
      (simp_all add: ex_mean_def np_defs mat_shape_def)
  have z: "length (objects ex_caller) = 0" by (simp add: ex_caller_def)
  have e: "\<lparr>vars = [''x1'', ''x2'', ''x3''], mean = mean ex_dist, cov = cov ex_dist, prec = None\<rparr>
      = ex_dist" by (simp add: ex_dist_def)
  have m: "\<lparr>nrows = length [''x1'', ''x2'', ''x3''], ncols = 1, elems = np_data ex_mean\<rparr>
      = mean ex_dist"
    by (simp add: ex_mean_def ex_dist_def np_defs)
  have "\<exists>h'. init ex_caller 0 ex_mean ex_cov = (Inr (length (objects ex_caller)), h') \<and>
      variables (objects h' ! length (objects ex_caller)) = 0 \<and>
      view h' (length (objects ex_caller)) =
        Some \<lparr>vars = [''x1'', ''x2'', ''x3''],
              mean = \<lparr>nrows = length [''x1'', ''x2'', ''x3''], ncols = 1,
                       elems = np_data ex_mean\<rparr>,
              cov = cov ex_dist, prec = None\<rparr>"
    by (rule init_dimensions[OF l, THEN conjunct2, THEN conjunct2, THEN conjunct2, THEN conjunct2,
          rule_format])
      (simp_all add: ex_mean_def ex_cov_def ex_dist_def np_defs mat_shape_def)
  then obtain h' where i: "init ex_caller 0 ex_mean ex_cov = (Inr (length (objects ex_caller)), h')"
    "view h' (length (objects ex_caller)) =
        Some \<lparr>vars = [''x1'', ''x2'', ''x3''],
              mean = \<lparr>nrows = length [''x1'', ''x2'', ''x3''], ncols = 1,
                       elems = np_data ex_mean\<rparr>,
              cov = cov ex_dist, prec = None\<rparr>"
    by (elim exE conjE)
  with e have d: "\<exists>h'. init ex_caller 0 ex_mean ex_cov = (Inr 0, h') \<and> view h' 0 = Some ex_dist"
    unfolding m z by (intro exI[of _ h'] conjI) simp_all
  let ?mean = "PyValue \<lparr>shape = [3], data = [1, -3, 4]\<rparr> :: real array_like"
  let ?cov = "NdArray \<lparr>shape = [1, 3, 3], data = [4, 2, -2, 2, 5, -5, -2, -5, 8]\<rparr>
                :: real array_like"
  have m2: "\<lparr>nrows = length [''x1'', ''x2'', ''x3''], ncols = 1, elems = np_data ?mean\<rparr>
      = mean ex_dist"
    by (simp add: ex_dist_def np_defs)
  have "\<exists>h'. init ex_caller 0 ?mean ?cov = (Inr (length (objects ex_caller)), h') \<and>
      variables (objects h' ! length (objects ex_caller)) = 0 \<and>
      view h' (length (objects ex_caller)) =
        Some \<lparr>vars = [''x1'', ''x2'', ''x3''],
              mean = \<lparr>nrows = length [''x1'', ''x2'', ''x3''], ncols = 1,
                       elems = np_data ?mean\<rparr>,
              cov = cov ex_dist, prec = None\<rparr>"
    by (rule init_dimensions[OF l, THEN conjunct2, THEN conjunct2, THEN conjunct2, THEN conjunct2,
          rule_format])
      (simp_all add: ex_dist_def np_defs mat_shape_def)
  then obtain h2 where i2: "init ex_caller 0 ?mean ?cov = (Inr (length (objects ex_caller)), h2)"
    "view h2 (length (objects ex_caller)) =
        Some \<lparr>vars = [''x1'', ''x2'', ''x3''],
              mean = \<lparr>nrows = length [''x1'', ''x2'', ''x3''], ncols = 1,
                       elems = np_data ?mean\<rparr>,
              cov = cov ex_dist, prec = None\<rparr>"
    by (elim exE conjE)
  with e have d2: "\<exists>h'. init ex_caller 0 ?mean ?cov = (Inr 0, h') \<and> view h' 0 = Some ex_dist"
    unfolding m2 z by (intro exI[of _ h2] conjI) simp_all
  from l a a0 b c c1 d d2 show ?thesis by (intro conjI)
qed

subsection \<open>C4\<close>

text \<open>
  C4 as stated fails: the copy does not own its list of variables. In the example,
  after \<open>c = d.copy()\<close> both instances refer to the same list object, so when a caller
  assigns \<open>d.variables[0] = 'y'\<close> the variables of \<open>c\<close> change as well. Nor does the
  copy own the cached precision matrix: copied after an access to \<open>precision_matrix\<close>,
  both instances cache the same object.
\<close>

theorem copy_shares_variables_counterexample:
  "fst (copy ex_heap 0) = Inr 1 \<and>
   view (snd (copy ex_heap 0)) 1 = Some ex_dist \<and>
   variables (objects (snd (copy ex_heap 0)) ! 1) = variables (objects (snd (copy ex_heap 0)) ! 0) \<and>
   view (list_setitem (snd (copy ex_heap 0))
           (variables (objects (snd (copy ex_heap 0)) ! 0)) 0 ''y'') 1
     = Some (ex_dist\<lparr>vars := [''y'', ''x2'', ''x3'']\<rparr>) \<and>
   ex_dist\<lparr>vars := [''y'', ''x2'', ''x3'']\<rparr> \<noteq> ex_dist \<and>
   fst (copy ex_heap_cached 0) = Inr 1 \<and>
   cached_precision (objects (snd (copy ex_heap_cached 0)) ! 0) = Some 2 \<and>
   cached_precision (objects (snd (copy ex_heap_cached 0)) ! 1) = Some 2"
  by (simp add: ex_copy ex_copy_cached)
    (simp add: view_def lookup_def list_setitem_def ex_dist_def)

text \<open>
  C4, amended. For a consistent instance with value \<open>st\<close>, \<open>copy\<close> returns a new
  instance with the same value (variables, mean vector, covariance matrix and cached
  precision matrix; the cache is unset when the receiver's is) and leaves the receiver
  as it was. The mean vector and the covariance matrix of the copy are new objects; its
  list of variables is the object the receiver refers to, which the constructor stores
  by reference. No call of \<open>marginalize\<close>, in either mode and whatever its argument and
  outcome, and no access to \<open>precision_matrix\<close>, on one of the two instances changes
  the value of the other.
\<close>

theorem copy_equal_by_value:
  assumes "view h self = Some st" and "consistent st"
  shows "\<exists>c h'. copy h self = (Inr c, h') \<and> \<not> c < length (objects h) \<and>
           view h' c = Some st \<and> view h' self = Some st \<and>
           \<not> mean_vector (objects h' ! c) < length (arrays h) \<and>
           \<not> covariance_matrix (objects h' ! c) < length (arrays h) \<and>
           variables (objects h' ! c) = variables (objects h' ! self) \<and>
           (\<forall>arg inplace r h''. marginalize h' self arg inplace = (r, h'') \<longrightarrow>
              view h'' c = Some st) \<and>
           (\<forall>arg inplace r h''. marginalize h' c arg inplace = (r, h'') \<longrightarrow>
              view h'' self = Some st) \<and>
           (\<forall>linalg_inv r h''. precision_matrix linalg_inv h' self = (r, h'') \<longrightarrow>
              view h'' c = Some st) \<and>
           (\<forall>linalg_inv r h''. precision_matrix linalg_inv h' c = (r, h'') \<longrightarrow>
              view h'' self = Some st)"
proof -
  let ?c = "length (objects h)"
  obtain r h' where cp: "copy h self = (r, h')" by (cases "copy h self")
  note cv = copy_view[OF assms cp]
  have ne: "self \<noteq> ?c" using view_SomeD(1)[OF assms(1)] by simp
  show ?thesis
  proof (rule exI[of _ ?c], rule exI[of _ h'], intro conjI allI impI)
    show "copy h self = (Inr ?c, h')" using cp cv(1) by simp
    show "\<not> ?c < length (objects h)" by simp
    show "view h' ?c = Some st" by (rule cv(2))
    show "view h' self = Some st" by (rule cv(3))
    show "\<not> mean_vector (objects h' ! ?c) < length (arrays h)" using cv(5) by simp
    show "\<not> covariance_matrix (objects h' ! ?c) < length (arrays h)" using cv(6) by simp
    show "variables (objects h' ! ?c) = variables (objects h' ! self)" using cv(4,7) by simp
    show "view h'' ?c = Some st" if "marginalize h' self arg inplace = (r, h'')"
      for arg inplace r h''
      using marginalize_other_view[OF that cv(2)] ne by simp
    show "view h'' self = Some st" if "marginalize h' ?c arg inplace = (r, h'')"
      for arg inplace r h''
      using marginalize_other_view[OF that cv(3)] ne by simp
    show "view h'' ?c = Some st" if "precision_matrix linalg_inv h' self = (r, h'')"
      for linalg_inv r h''
      using precision_matrix_other_view[OF that cv(2)] ne by simp
    show "view h'' self = Some st" if "precision_matrix linalg_inv h' ?c = (r, h'')"
      for linalg_inv r h''
      using precision_matrix_other_view[OF that cv(3)] ne by simp
  qed
qed

text \<open>
  The example: the copy equals the original, and an in-place \<open>marginalize(['x3'])\<close> or
  an access to \<open>precision_matrix\<close> on either leaves the other as it was.
\<close>

theorem copy_equal_by_value_witness:
  "view ex_heap 0 = Some ex_dist \<and> consistent ex_dist \<and>
   (\<exists>c h'. copy ex_heap 0 = (Inr c, h') \<and> c \<noteq> 0 \<and>
      view h' c = Some ex_dist \<and> view h' 0 = Some ex_dist \<and>
      view (snd (marginalize h' 0 (PySeq [''x3'']) True)) c = Some ex_dist \<and>
      view (snd (marginalize h' c (PySeq [''x3'']) True)) 0 = Some ex_dist \<and>
      view (snd (precision_matrix ex_inv h' 0)) c = Some ex_dist \<and>
      view (snd (precision_matrix ex_inv h' c)) 0 = Some ex_dist)"
proof -
  have l: "length (objects ex_heap) = 1" by (simp add: ex_heap_def)
  from copy_equal_by_value[OF ex_view ex_consistent] obtain c h' where
    f: "copy ex_heap 0 = (Inr c, h')" "\<not> c < length (objects ex_heap)"
      "view h' c = Some ex_dist" "view h' 0 = Some ex_dist"
      "\<forall>arg inplace r h''. marginalize h' 0 arg inplace = (r, h'') \<longrightarrow> view h'' c = Some ex_dist"
      "\<forall>arg inplace r h''. marginalize h' c arg inplace = (r, h'') \<longrightarrow> view h'' 0 = Some ex_dist"
      "\<forall>linalg_inv r h''. precision_matrix linalg_inv h' 0 = (r, h'') \<longrightarrow>
          view h'' c = Some ex_dist"
      "\<forall>linalg_inv r h''. precision_matrix linalg_inv h' c = (r, h'') \<longrightarrow>
          view h'' 0 = Some ex_dist"
    by (elim exE conjE)
  have n: "c \<noteq> 0" using f(2) l by simp
  have a: "view (snd (marginalize h' 0 (PySeq [''x3'']) True)) c = Some ex_dist"
    by (rule f(5)[rule_format, of _ _ "fst (marginalize h' 0 (PySeq [''x3'']) True)"]) simp
  have b: "view (snd (marginalize h' c (PySeq [''x3'']) True)) 0 = Some ex_dist"
    by (rule f(6)[rule_format, of _ _ "fst (marginalize h' c (PySeq [''x3'']) True)"]) simp
  have d: "view (snd (precision_matrix ex_inv h' 0)) c = Some ex_dist"
    by (rule f(7)[rule_format, of ex_inv "fst (precision_matrix ex_inv h' 0)"]) simp
  have e: "view (snd (precision_matrix ex_inv h' c)) 0 = Some ex_dist"
    by (rule f(8)[rule_format, of ex_inv "fst (precision_matrix ex_inv h' c)"]) simp
  have "\<exists>c h'. copy ex_heap 0 = (Inr c, h') \<and> c \<noteq> 0 \<and>
      view h' c = Some ex_dist \<and> view h' 0 = Some ex_dist \<and>
      view (snd (marginalize h' 0 (PySeq [''x3'']) True)) c = Some ex_dist \<and>
      view (snd (marginalize h' c (PySeq [''x3'']) True)) 0 = Some ex_dist \<and>
      view (snd (precision_matrix ex_inv h' 0)) c = Some ex_dist \<and>
      view (snd (precision_matrix ex_inv h' c)) 0 = Some ex_dist"
    using f(1) n f(3,4) a b d e by (intro exI[of _ c] exI[of _ h'] conjI)
  with ex_view ex_consistent show ?thesis by (intro conjI)
qed

subsection \<open>C5\<close>

text \<open>
  C5. Under the conditions of C1, \<open>marginalize(rs, inplace=False)\<close> returns a new
  instance \<open>c\<close> that holds the marginal, and leaves the receiver with the attributes and
  the value it had. The new instance is independent: \<open>c\<close>, its list of variables, its
  mean vector and its covariance matrix are at addresses that did not exist before the
  call, and its cache is unset. \<open>marginalize(rs, inplace=True)\<close> returns \<open>None\<close>, and the
  receiver then holds the marginal.
\<close>

theorem marginalize_inplace_modes:
  assumes "view h self = Some st" and "consistent st"
    and "distinct (vars st)" and "set rs \<subseteq> set (vars st)"
  shows "(\<exists>c h'. marginalize h self (PySeq rs) False = (Inr (Some c), h') \<and>
            view h' self = Some st \<and> objects h' ! self = objects h ! self \<and>
            view h' c = Some (marginal st rs) \<and>
            \<not> c < length (objects h) \<and>
            \<not> variables (objects h' ! c) < length (pylists h) \<and>
            \<not> mean_vector (objects h' ! c) < length (arrays h) \<and>
            \<not> covariance_matrix (objects h' ! c) < length (arrays h) \<and>
            cached_precision (objects h' ! c) = None) \<and>
         (\<exists>h'. marginalize h self (PySeq rs) True = (Inr None, h') \<and>
            view h' self = Some (marginal st rs))"
proof -
  from marginalize_copy_ok[OF assms] obtain h' where
    "marginalize h self (PySeq rs) False = (Inr (Some (length (objects h))), h')"
    "view h' self = Some st" "objects h' ! self = objects h ! self"
    "view h' (length (objects h)) = Some (marginal st rs)"
    "objects h' ! length (objects h) =
       \<lparr>variables = length (pylists h), mean_vector = Suc (Suc (length (arrays h))),
        covariance_matrix = Suc (Suc (Suc (length (arrays h)))), cached_precision = None\<rparr>"
    by blast
  then have "\<exists>c h'. marginalize h self (PySeq rs) False = (Inr (Some c), h') \<and>
            view h' self = Some st \<and> objects h' ! self = objects h ! self \<and>
            view h' c = Some (marginal st rs) \<and>
            \<not> c < length (objects h) \<and>
            \<not> variables (objects h' ! c) < length (pylists h) \<and>
            \<not> mean_vector (objects h' ! c) < length (arrays h) \<and>
            \<not> covariance_matrix (objects h' ! c) < length (arrays h) \<and>
            cached_precision (objects h' ! c) = None"
    by (intro exI[of _ "length (objects h)"] exI[of _ h']) simp
  then show ?thesis using marginalize_inplace_ok[OF assms] by blast
qed

text \<open>
  The example, removing \<open>x3\<close> in both modes.
\<close>

theorem marginalize_inplace_modes_witness:
  "view ex_heap 0 = Some ex_dist \<and> consistent ex_dist \<and> distinct (vars ex_dist) \<and>
   set [''x3''] \<subseteq> set (vars ex_dist) \<and>
   (\<exists>c h'. marginalize ex_heap 0 (PySeq [''x3'']) False = (Inr (Some c), h') \<and>
      view h' 0 = Some ex_dist \<and>
      view h' c =
        Some \<lparr>vars = [''x1'', ''x2''], mean = \<lparr>nrows = 2, ncols = 1, elems = [1, -3]\<rparr>,
              cov = \<lparr>nrows = 2, ncols = 2, elems = [4, 2, 2, 5]\<rparr>, prec = None\<rparr> \<and>
      c \<noteq> 0) \<and>
   (\<exists>h'. marginalize ex_heap 0 (PySeq [''x3'']) True = (Inr None, h') \<and>
      view h' 0 =
        Some \<lparr>vars = [''x1'', ''x2''], mean = \<lparr>nrows = 2, ncols = 1, elems = [1, -3]\<rparr>,
              cov = \<lparr>nrows = 2, ncols = 2, elems = [4, 2, 2, 5]\<rparr>, prec = None\<rparr>)"
proof -
  have s1: "set [''x3''] \<subseteq> set (vars ex_dist)" by (simp add: ex_dist_def)
  have l: "length (objects ex_heap) = 1" by (simp add: ex_heap_def)
  note t = marginalize_inplace_modes[OF ex_view ex_consistent ex_distinct s1, unfolded ex_marginal]
  from t[THEN conjunct1] obtain c h' where
    f: "marginalize ex_heap 0 (PySeq [''x3'']) False = (Inr (Some c), h')"
      "view h' 0 = Some ex_dist"
      "view h' c =
        Some \<lparr>vars = [''x1'', ''x2''], mean = \<lparr>nrows = 2, ncols = 1, elems = [1, -3]\<rparr>,
              cov = \<lparr>nrows = 2, ncols = 2, elems = [4, 2, 2, 5]\<rparr>, prec = None\<rparr>"
      "\<not> c < length (objects ex_heap)"
    by (elim exE conjE)
  from f(4) l have "c \<noteq> 0" by simp
  with f(1-3) have a: "\<exists>c h'. marginalize ex_heap 0 (PySeq [''x3'']) False = (Inr (Some c), h') \<and>
      view h' 0 = Some ex_dist \<and>
      view h' c =
        Some \<lparr>vars = [''x1'', ''x2''], mean = \<lparr>nrows = 2, ncols = 1, elems = [1, -3]\<rparr>,
              cov = \<lparr>nrows = 2, ncols = 2, elems = [4, 2, 2, 5]\<rparr>, prec = None\<rparr> \<and>
      c \<noteq> 0"
    by (intro exI[of _ c] exI[of _ h'] conjI)
  note b = t[THEN conjunct2]
  from ex_view ex_consistent ex_distinct s1 a b show ?thesis by (intro conjI)
qed

subsection \<open>C6\<close>

text \<open>
  C6. In every store that the public operations can reach, an instance whose cache is
  set has there the matrix that the inversion returns for the covariance matrix it holds
  now. Every operation from such a store keeps this, and an operation that rebinds the
  \<open>covariance_matrix\<close> of an instance leaves the cache of that instance unset.
\<close>

theorem cache_invariant:
  assumes "reachable linalg_inv h"
  shows "(\<forall>a st pm. view h a = Some st \<longrightarrow> prec st = Some pm \<longrightarrow>
            linalg_inv (cov st) = Some pm) \<and>
         (\<forall>h'. step linalg_inv h h' \<longrightarrow>
            (\<forall>a st pm. view h' a = Some st \<longrightarrow> prec st = Some pm \<longrightarrow>
               linalg_inv (cov st) = Some pm) \<and>
            (\<forall>b < length (objects h).
               covariance_matrix (objects h' ! b) \<noteq> covariance_matrix (objects h ! b) \<longrightarrow>
               cached_precision (objects h' ! b) = None))"
proof -
  have ok: "cache_ok linalg_inv h" using assms by (rule reachable_cache_ok)
  have 1: "\<forall>a st pm. view h a = Some st \<longrightarrow> prec st = Some pm \<longrightarrow>
            linalg_inv (cov st) = Some pm"
    using cache_ok_view[OF ok] by blast
  have 2: "(\<forall>a st pm. view h' a = Some st \<longrightarrow> prec st = Some pm \<longrightarrow>
               linalg_inv (cov st) = Some pm) \<and>
            (\<forall>b < length (objects h).
               covariance_matrix (objects h' ! b) \<noteq> covariance_matrix (objects h ! b) \<longrightarrow>
               cached_precision (objects h' ! b) = None)"
    if s: "step linalg_inv h h'" for h'
  proof -
    have "cache_ok linalg_inv h'" using step_cache_ok[OF s ok] .
    then have "\<forall>a st pm. view h' a = Some st \<longrightarrow> prec st = Some pm \<longrightarrow>
               linalg_inv (cov st) = Some pm"
      using cache_ok_view by blast
    moreover have "\<forall>b < length (objects h).
               covariance_matrix (objects h' ! b) \<noteq> covariance_matrix (objects h ! b) \<longrightarrow>
               cached_precision (objects h' ! b) = None"
      using step_clears[OF s] by blast
    ultimately show ?thesis by (rule conjI)
  qed
  from 1 2 show ?thesis by blast
qed

text \<open>
  The example: the access to \<open>precision_matrix\<close> is a step that sets the cache to the
  inverse, and \<open>marginalize(['x3'])\<close> is a step that rebinds the covariance matrix and
  clears the cache.
\<close>

theorem cache_invariant_witness:
  "reachable ex_inv ex_heap \<and> step ex_inv ex_heap ex_heap_cached \<and>
   reachable ex_inv ex_heap_cached \<and>
   view ex_heap_cached 0 = Some (ex_dist\<lparr>prec := Some ex_precision\<rparr>) \<and>
   ex_inv (cov ex_dist) = Some ex_precision \<and>
   step ex_inv ex_heap_cached (snd (marginalize ex_heap_cached 0 (PySeq [''x3'']) True)) \<and>
   covariance_matrix (objects (snd (marginalize ex_heap_cached 0 (PySeq [''x3'']) True)) ! 0)
     \<noteq> covariance_matrix (objects ex_heap_cached ! 0) \<and>
   cached_precision (objects (snd (marginalize ex_heap_cached 0 (PySeq [''x3'']) True)) ! 0)
     = None"
proof -
  let ?h' = "snd (marginalize ex_heap_cached 0 (PySeq [''x3'']) True)"
  note t0 = cache_invariant[OF ex_reachable]
  note t = cache_invariant[OF ex_cached_reachable]
  have s0: "step ex_inv ex_heap ex_heap_cached"
    using ex_access by (rule step.precision_access)
  have p: "prec (ex_dist\<lparr>prec := Some ex_precision\<rparr>) = Some ex_precision" by simp
  have "ex_inv (cov (ex_dist\<lparr>prec := Some ex_precision\<rparr>)) = Some ex_precision"
    by (rule t0[THEN conjunct2, rule_format, OF s0, THEN conjunct1, rule_format,
          OF ex_cached_view p])
  moreover have "ex_inv (cov (ex_dist\<lparr>prec := Some ex_precision\<rparr>)) = Some ex_precision"
    by (rule t[THEN conjunct1, rule_format, OF ex_cached_view p])
  ultimately have a: "ex_inv (cov ex_dist) = Some ex_precision" by simp
  have s: "step ex_inv ex_heap_cached ?h'"
    by (rule step.marginalization[of _ _ _ _ "fst (marginalize ex_heap_cached 0 (PySeq [''x3'']) True)"])
      simp
  have l: "0 < length (objects ex_heap_cached)" by (simp add: ex_heap_cached_def)
  have c: "covariance_matrix (objects ?h' ! 0) \<noteq> covariance_matrix (objects ex_heap_cached ! 0)"
    by (simp add: ex_marginalize_cached) (simp add: ex_heap_cached_def)
  have d: "cached_precision (objects ?h' ! 0) = None"
    using t[THEN conjunct2, rule_format, OF s, THEN conjunct2, rule_format, OF l c] .
  from ex_reachable s0 ex_cached_reachable ex_cached_view a s c d show ?thesis by (intro conjI)
qed

subsection \<open>C7\<close>

text \<open>
  C7. \<open>precision_matrix\<close> on a consistent instance of a reachable store. The inversion
  is numpy's, here the parameter \<open>linalg_inv\<close>, and it is taken to meet its contract: on
  a square matrix it raises \<open>LinAlgError\<close>, the specification's SingularMatrixError,
  when the matrix is singular, that is, has no inverse, and it returns an inverse of
  the matrix otherwise. Then, when the covariance matrix is singular the access fails
  with \<open>LinAlgError\<close> and the store is the one before the access: no retry, no
  fallback, nothing cached. When the covariance matrix is invertible the access raises
  nothing and returns an object that holds an inverse of the covariance matrix.
\<close>

theorem precision_matrix_singular:
  assumes "inversion_contract linalg_inv" and "reachable linalg_inv h"
    and "view h self = Some st" and "consistent st"
  shows "(singular (cov st) \<longrightarrow>
            precision_matrix linalg_inv h self = (Inl LinAlgError, h)) \<and>
         (\<not> singular (cov st) \<longrightarrow>
            (\<exists>p h' pm. precision_matrix linalg_inv h self = (Inr p, h') \<and>
                       lookup (arrays h') p = Inr pm \<and> is_inverse pm (cov st)))"
proof -
  have sq: "square (cov st)" using assms(4) by (rule consistent_square)
  from assms(1) sq
  have c: "case linalg_inv (cov st) of None \<Rightarrow> singular (cov st)
           | Some p \<Rightarrow> is_inverse p (cov st)"
    by (simp add: inversion_contract_def)
  note f = precision_matrix_follows_inversion[where linalg_inv = linalg_inv, OF assms(2,3)]
  have 1: "precision_matrix linalg_inv h self = (Inl LinAlgError, h)" if s: "singular (cov st)"
  proof (cases "linalg_inv (cov st)")
    case None
    then show ?thesis using f by blast
  next
    case (Some pm)
    then have "is_inverse pm (cov st)" using c by simp
    then show ?thesis using s by (auto simp: singular_def)
  qed
  have 2: "\<exists>p h' pm. precision_matrix linalg_inv h self = (Inr p, h') \<and>
                       lookup (arrays h') p = Inr pm \<and> is_inverse pm (cov st)"
    if s: "\<not> singular (cov st)"
  proof (cases "linalg_inv (cov st)")
    case None
    then show ?thesis using c s by simp
  next
    case (Some pm)
    then have i: "is_inverse pm (cov st)" using c by simp
    from f Some obtain p h' where "precision_matrix linalg_inv h self = (Inr p, h')"
      "lookup (arrays h') p = Inr pm" by blast
    with i show ?thesis by blast
  qed
  from 1 2 show ?thesis by blast
qed

text \<open>
  The contract can be met: Gauss-Jordan elimination meets it. With this inversion, the
  covariance matrix with all entries 1 is singular and the access fails with the store
  unchanged; the covariance matrix of the example is invertible and the access returns
  an inverse of it.
\<close>

theorem precision_matrix_singular_witness:
  "inversion_contract (gauss_inv :: real matrix \<Rightarrow> real matrix option) \<and>
   reachable gauss_inv ex_singular_heap \<and> view ex_singular_heap 0 = Some ex_singular_dist \<and>
   consistent ex_singular_dist \<and> singular (cov ex_singular_dist) \<and>
   precision_matrix gauss_inv ex_singular_heap 0 = (Inl LinAlgError, ex_singular_heap) \<and>
   reachable gauss_inv ex_heap \<and> view ex_heap 0 = Some ex_dist \<and> consistent ex_dist \<and>
   \<not> singular (cov ex_dist) \<and>
   (\<exists>p h' pm. precision_matrix gauss_inv ex_heap 0 = (Inr p, h') \<and>
      lookup (arrays h') p = Inr pm \<and> is_inverse pm (cov ex_dist))"
proof -
  have c: "inversion_contract (gauss_inv :: real matrix \<Rightarrow> real matrix option)"
    by (rule gauss_inv_contract)
  have r1: "reachable gauss_inv ex_singular_heap" by (rule ex_singular_reachable_any)
  have r2: "reachable gauss_inv ex_heap" by (rule ex_reachable_any)
  have n: "\<not> singular (cov ex_dist)" using ex_invertible by (auto simp: singular_def)
  note a = precision_matrix_singular[OF c r1 ex_singular_view ex_singular_consistent,
      THEN conjunct1, rule_format, OF ex_singular]
  note b = precision_matrix_singular[OF c r2 ex_view ex_consistent,
      THEN conjunct2, rule_format, OF n]
  from c r1 ex_singular_view ex_singular_consistent ex_singular a r2 ex_view ex_consistent n b
  show ?thesis by (intro conjI)
qed

subsection \<open>C8\<close>

text \<open>
  C8. When the sequence passed to \<open>marginalize\<close> has an identifier that is not among
  the variables of the receiver, the call fails with \<open>ValueError\<close>, which \<open>list.index\<close>
  raises and the specification calls UnknownVariableError. The receiver keeps its
  attributes and its value, and with \<open>inplace=True\<close> the whole store is unchanged.
\<close>

theorem marginalize_unknown_variable:
  assumes "view h self = Some st" and "consistent st" and "\<not> set rs \<subseteq> set (vars st)"
  shows "\<exists>h'. marginalize h self (PySeq rs) inplace = (Inl ValueError, h') \<and>
               view h' self = Some st \<and> objects h' ! self = objects h ! self \<and>
               (inplace \<longrightarrow> h' = h)"
proof (cases inplace)
  case True
  then show ?thesis
    using marginalize_body_unknown[OF assms(1,3), of self] assms(1)
    by (simp add: marginalize_def)
next
  case False
  obtain r h1 where cp: "copy h self = (r, h1)" by (cases "copy h self")
  note c = copy_view[OF assms(1,2) cp]
  have "marginalize_body h1 self (length (objects h)) rs = (Inl ValueError, h1)"
    using marginalize_body_unknown[OF c(2) assms(3)] .
  then show ?thesis using False cp c(1,3,4)
    by (simp add: marginalize_def)
qed

text \<open>
  The example with \<open>['x1', 'x4']\<close>: \<open>x1\<close> is known, \<open>x4\<close> is not; nothing is removed.
\<close>

theorem marginalize_unknown_variable_witness:
  "view ex_heap 0 = Some ex_dist \<and> consistent ex_dist \<and>
   \<not> set [''x1'', ''x4''] \<subseteq> set (vars ex_dist) \<and>
   marginalize ex_heap 0 (PySeq [''x1'', ''x4'']) True = (Inl ValueError, ex_heap) \<and>
   (\<exists>h'. marginalize ex_heap 0 (PySeq [''x1'', ''x4'']) False = (Inl ValueError, h') \<and>
      view h' 0 = Some ex_dist)"
proof -
  have s: "\<not> set [''x1'', ''x4''] \<subseteq> set (vars ex_dist)" by (simp add: ex_dist_def)
  from marginalize_unknown_variable[OF ex_view ex_consistent s, of True]
  have a: "marginalize ex_heap 0 (PySeq [''x1'', ''x4'']) True = (Inl ValueError, ex_heap)"
    by (elim exE conjE) simp
  from marginalize_unknown_variable[OF ex_view ex_consistent s, of False]
  have b: "\<exists>h'. marginalize ex_heap 0 (PySeq [''x1'', ''x4'']) False = (Inl ValueError, h') \<and>
      view h' 0 = Some ex_dist"
    by (elim exE conjE) (intro exI conjI)
  from ex_view ex_consistent s a b show ?thesis by (intro conjI)
qed

subsection \<open>C9\<close>

text \<open>
  C9. Calling \<open>marginalize\<close> with a bare string instead of a sequence of identifiers
  fails with \<open>TypeError\<close> (the specification's InvalidArgumentError), whatever the
  receiver and the mode. The store is the one before the call: nothing has changed,
  and the characters of the string are never looked up.
\<close>

theorem marginalize_string_rejected:
  "marginalize h self (PyStr s) inplace = (Inl TypeError, h)"
  by (simp add: marginalize_def)

subsection \<open>C10\<close>

text \<open>
  C10. Repeated identifiers in the removal list have no effect: \<open>marginalize\<close> with
  \<open>rs\<close> and with \<open>rs\<close> without its duplicates give the same result and the same store,
  in either mode and for every receiver, also when the call fails.
\<close>

theorem marginalize_duplicates:
  "marginalize h self (PySeq rs) inplace = marginalize h self (PySeq (remdups rs)) inplace"
  by (rule marginalize_set_cong) simp

end
